theory Spec2Isabelle
  imports Complex_Main
begin

section \<open>Tensors, errors and numeric types\<close>

text \<open>
  The program is \<^verbatim>\<open>src/llamabpt/bpt.py\<close>: blockwise attention, a blockwise feed-forward
  runner and a blockwise cross-entropy. A tensor is a nested list in row-major order, one list
  level per axis. \<^verbatim>\<open>jax.checkpoint\<close>, \<^verbatim>\<open>stop_gradient\<close>, \<^verbatim>\<open>policy\<close> and
  \<^verbatim>\<open>precision\<close> do not change the values of the forward computation and have no
  counterpart here. The errors of the model are: an axis that a chunk size does not divide,
  an absent argument whose shape is read, the failed assertion on the bias, a reduction over
  an empty axis, and a scan over key and value chunks of different numbers.
\<close>

type_synonym 'a tensor4 = "'a list list list list"

datatype error = RearrangeError | AttributeError | AssertionError | ValueError

datatype dtype = Float16 | BFloat16 | Float32 | Float64

text \<open>\<^verbatim>\<open>jnp.finfo(dtype).min\<close>: the most negative finite value of the format.\<close>

fun finfo_min :: "dtype \<Rightarrow> real" where
  "finfo_min Float16 = - 65504"
| "finfo_min BFloat16 = - (2 ^ 128 - 2 ^ 120)"
| "finfo_min Float32 = - (2 ^ 128 - 2 ^ 104)"
| "finfo_min Float64 = - (2 ^ 1024 - 2 ^ 971)"

text \<open>
  The entries of the attention tensors are floating-point values: a finite number,
  \<^verbatim>\<open>-inf\<close>, \<^verbatim>\<open>+inf\<close> or NaN. (The two zeros are not told apart.)
\<close>

datatype fl = NaN | NegInf | PosInf | Fin real

text \<open>
  The floating-point arithmetic of the platform is a parameter of the attention functions:
  addition, subtraction, multiplication, division, exponential and square root of floats,
  the reduction of an axis by addition (\<^verbatim>\<open>sum\<close>) and the contraction of two vectors (the
  inner step of \<^verbatim>\<open>einsum\<close>). Nothing is fixed about how they round, overflow or treat
  \<^verbatim>\<open>-inf\<close> and NaN, nor about the order in which a reduction adds; a theorem that needs a
  property of the arithmetic states it as a hypothesis. All tensors are taken to be of one
  working precision, so the casts \<^verbatim>\<open>astype\<close> and \<^verbatim>\<open>float32_logits\<close> are the identity.
\<close>

record arith =
  f_add :: "fl \<Rightarrow> fl \<Rightarrow> fl"
  f_sub :: "fl \<Rightarrow> fl \<Rightarrow> fl"
  f_mul :: "fl \<Rightarrow> fl \<Rightarrow> fl"
  f_div :: "fl \<Rightarrow> fl \<Rightarrow> fl"
  f_exp :: "fl \<Rightarrow> fl"
  f_sqrt :: "fl \<Rightarrow> fl"
  f_sum :: "fl list \<Rightarrow> fl"
  f_dot :: "fl list \<Rightarrow> fl list \<Rightarrow> fl"

text \<open>
  \<^verbatim>\<open>jnp.maximum\<close> and \<^verbatim>\<open>jnp.max\<close> along an axis compare and do not round: NaN
  propagates, \<^verbatim>\<open>-inf\<close> is below and \<^verbatim>\<open>+inf\<close> above every other value.
\<close>

fun fmaximum :: "fl \<Rightarrow> fl \<Rightarrow> fl" where
  "fmaximum NaN y = NaN"
| "fmaximum x NaN = NaN"
| "fmaximum PosInf y = PosInf"
| "fmaximum x PosInf = PosInf"
| "fmaximum NegInf y = y"
| "fmaximum x NegInf = x"
| "fmaximum (Fin a) (Fin b) = Fin (max a b)"

fun max_row :: "fl list \<Rightarrow> fl" where
  "max_row [] = NegInf"
| "max_row (x # xs) = fmaximum x (max_row xs)"

text \<open>The axis lengths \<^verbatim>\<open>t.shape[i]\<close> of a nested list (0 below an empty axis).\<close>

definition dim0 :: "'a list \<Rightarrow> nat" where
  "dim0 t = length t"

definition dim1 :: "'a list list \<Rightarrow> nat" where
  "dim1 t = (case t of [] \<Rightarrow> 0 | x # _ \<Rightarrow> length x)"

definition dim2 :: "'a list list list \<Rightarrow> nat" where
  "dim2 t = (case t of [] \<Rightarrow> 0 | x # _ \<Rightarrow> dim1 x)"

definition dim3 :: "'a tensor4 \<Rightarrow> nat" where
  "dim3 t = (case t of [] \<Rightarrow> 0 | x # _ \<Rightarrow> dim2 x)"

text \<open>A tensor given by its shape and its entry at every index.\<close>

definition tab4 :: "nat \<Rightarrow> nat \<Rightarrow> nat \<Rightarrow> nat \<Rightarrow> (nat \<Rightarrow> nat \<Rightarrow> nat \<Rightarrow> nat \<Rightarrow> 'a) \<Rightarrow> 'a tensor4" where
  "tab4 n0 n1 n2 n3 f =
     map (\<lambda>i. map (\<lambda>j. map (\<lambda>k. map (\<lambda>l. f i j k l) [0..<n3]) [0..<n2]) [0..<n1]) [0..<n0]"

text \<open>\<^verbatim>\<open>t\<close> is a rectangular rank-4 tensor of the given shape.\<close>

definition has_shape4 :: "'a tensor4 \<Rightarrow> nat \<Rightarrow> nat \<Rightarrow> nat \<Rightarrow> nat \<Rightarrow> bool" where
  "has_shape4 t n0 n1 n2 n3 \<longleftrightarrow>
     length t = n0 \<and> list_all (\<lambda>x. length x = n1 \<and>
       list_all (\<lambda>y. length y = n2 \<and> list_all (\<lambda>z. length z = n3) y) x) t"

text \<open>
  Elementwise binary operations with NumPy broadcasting: at every axis an operand of
  length 1 is repeated. (Operands whose lengths differ and are both other than 1 raise in
  JAX; the shape assertion of \<^verbatim>\<open>blockwise_attn\<close> keeps the bias away from that case.)
\<close>

definition bdim :: "nat \<Rightarrow> nat \<Rightarrow> nat" where
  "bdim m n = (if m = 1 then n else m)"

definition bidx :: "nat \<Rightarrow> nat \<Rightarrow> nat" where
  "bidx m i = (if m = 1 then 0 else i)"

definition broadcast2 :: "('a \<Rightarrow> 'b \<Rightarrow> 'c) \<Rightarrow> 'a list \<Rightarrow> 'b list \<Rightarrow> 'c list" where
  "broadcast2 f xs ys =
     map (\<lambda>i. f (xs ! bidx (length xs) i) (ys ! bidx (length ys) i))
       [0..<bdim (length xs) (length ys)]"

definition broadcast4 :: "('a \<Rightarrow> 'b \<Rightarrow> 'c) \<Rightarrow> 'a tensor4 \<Rightarrow> 'b tensor4 \<Rightarrow> 'c tensor4" where
  "broadcast4 f = broadcast2 (broadcast2 (broadcast2 (broadcast2 f)))"

text \<open>
  \<^verbatim>\<open>lax.dynamic_slice\<close> along one axis: the start index is clamped so that the slice
  stays inside the operand.
\<close>

definition dynamic_slice1 :: "nat \<Rightarrow> nat \<Rightarrow> 'a list \<Rightarrow> 'a list" where
  "dynamic_slice1 start len xs = take len (drop (min start (length xs - len)) xs)"

text \<open>
  \<^verbatim>\<open>lax.dynamic_slice(t, (0, 0, qo, ko), (*t.shape[:2], min(t.shape[-2], qc), min(t.shape[-1], kc))\<close>.
\<close>

definition dynamic_slice_tile :: "'a tensor4 \<Rightarrow> nat \<Rightarrow> nat \<Rightarrow> nat \<Rightarrow> nat \<Rightarrow> 'a tensor4" where
  "dynamic_slice_tile t query_offset key_offset query_chunk_size key_chunk_size =
     map (map (\<lambda>m. map (dynamic_slice1 key_offset (min (dim3 t) key_chunk_size))
                     (dynamic_slice1 query_offset (min (dim2 t) query_chunk_size) m))) t"

text \<open>
  \<^verbatim>\<open>rearrange(t, 'b (c n) h d -> n b c h d', c=c)\<close>: einops splits the sequence axis with
  \<^verbatim>\<open>c\<close> as the outer factor, so entry \<^verbatim>\<open>[n][b][c]\<close> of the result is entry
  \<^verbatim>\<open>[b][c * N + n]\<close> of the operand, where \<^verbatim>\<open>N\<close> is the number of chunks. It raises when
  the axis length is not a multiple of \<^verbatim>\<open>c\<close>.
\<close>

definition rearrange_split :: "nat \<Rightarrow> 'a list list \<Rightarrow> error + 'a list list list" where
  "rearrange_split c t =
     (if c = 0 \<or> dim1 t mod c \<noteq> 0 then Inl RearrangeError
      else let n = dim1 t div c
           in Inr (map (\<lambda>ni. map (\<lambda>row. map (\<lambda>ci. row ! (ci * n + ni)) [0..<c]) t) [0..<n]))"

text \<open>
  \<^verbatim>\<open>rearrange(res, 'n b c h d -> b (n c) h d')\<close>: here \<^verbatim>\<open>n\<close> is the outer factor, so
  entry \<^verbatim>\<open>[b][n * C + c]\<close> of the result is entry \<^verbatim>\<open>[n][b][c]\<close> of the operand.
\<close>

definition rearrange_merge :: "'a list list list \<Rightarrow> 'a list list" where
  "rearrange_merge res = map (\<lambda>b. concat (map (\<lambda>chunk. chunk ! b) res)) [0..<dim1 res]"

text \<open>
  \<^verbatim>\<open>lax.scan(f, init, xs)\<close>: the carry is threaded through the steps in order and the
  per-step outputs are stacked; an exception in a step ends the scan.
\<close>

fun scan :: "('c \<Rightarrow> 'x \<Rightarrow> error + 'c \<times> 'y) \<Rightarrow> 'c \<Rightarrow> 'x list \<Rightarrow> error + 'c \<times> 'y list" where
  "scan f carry [] = Inr (carry, [])"
| "scan f carry (x # xs) =
     (case f carry x of
        Inl e \<Rightarrow> Inl e
      | Inr (carry', y) \<Rightarrow>
          (case scan f carry' xs of
             Inl e \<Rightarrow> Inl e
           | Inr (carry'', ys) \<Rightarrow> Inr (carry'', y # ys)))"

section \<open>The bias tile of one block pair\<close>

text \<open>
  \<^verbatim>\<open>_chunk_attention_bias\<close>. \<^verbatim>\<open>bias\<close> and \<^verbatim>\<open>attn_dropout\<close> may be \<^verbatim>\<open>None\<close>; reading
  the shape of an absent dropout mask raises. The product of a boolean and
  \<^verbatim>\<open>jnp.finfo(dtype).min\<close> is that value where the boolean holds and zero elsewhere; the
  additions \<^verbatim>\<open>+=\<close> are those of the arithmetic.
\<close>

definition causal_mask_value :: "nat \<Rightarrow> nat \<Rightarrow> int \<Rightarrow> dtype \<Rightarrow> fl list list" where
  "causal_mask_value query_chunk_size key_chunk_size offset dtype =
     map (\<lambda>query_idx. map (\<lambda>key_idx.
            if int query_idx + offset < int key_idx then Fin (finfo_min dtype) else Fin 0)
          [0..<key_chunk_size]) [0..<query_chunk_size]"

definition chunk_attention_bias ::
  "arith \<Rightarrow> nat \<Rightarrow> nat \<Rightarrow> fl tensor4 option \<Rightarrow> bool \<Rightarrow> bool tensor4 option \<Rightarrow> real \<Rightarrow> bool \<Rightarrow>
   dtype \<Rightarrow> nat \<Rightarrow> nat \<Rightarrow> error + fl tensor4" where
  "chunk_attention_bias A query_chunk_size key_chunk_size bias deterministic attn_dropout
       attn_pdrop causal dtype query_chunk_idx key_chunk_idx =
     (let query_offset = query_chunk_idx * query_chunk_size;
          key_offset = key_chunk_idx * key_chunk_size;
          chunk_bias = (case bias of
              None \<Rightarrow> [[[[Fin 0]]]]
            | Some b \<Rightarrow> dynamic_slice_tile b query_offset key_offset
                          query_chunk_size key_chunk_size);
          chunk_bias = (if causal
             then broadcast4 (f_add A) chunk_bias
                    [[causal_mask_value query_chunk_size key_chunk_size
                        (int query_offset - int key_offset) dtype]]
             else chunk_bias)
      in if \<not> deterministic \<and> attn_pdrop > 0
         then (case attn_dropout of
                 None \<Rightarrow> Inl AttributeError
               | Some dropout \<Rightarrow>
                   Inr (broadcast4 (f_add A) chunk_bias
                          (map (map (map (map (\<lambda>flag. if flag then Fin (finfo_min dtype) else Fin 0))))
                             (dynamic_slice_tile dropout query_offset key_offset
                                query_chunk_size key_chunk_size))))
         else Inr chunk_bias)"

section \<open>Blockwise attention\<close>

record Carry =
  numerator :: "fl tensor4"
  denominator :: "fl tensor4"
  max_so_far :: "fl tensor4"

text \<open>\<^verbatim>\<open>jnp.einsum('bqhd,bkhd->bqhk', x, y)\<close>.\<close>

definition einsum_bqhd_bkhd :: "arith \<Rightarrow> fl tensor4 \<Rightarrow> fl tensor4 \<Rightarrow> fl tensor4" where
  "einsum_bqhd_bkhd A x y =
     map2 (\<lambda>xb yb. map (\<lambda>xq. map (\<lambda>h. map (\<lambda>yk. f_dot A (xq ! h) (yk ! h)) yb)
                                [0..<length xq]) xb) x y"

text \<open>\<^verbatim>\<open>jnp.einsum('bqhv,bvhf->bqhf', w, y)\<close>.\<close>

definition einsum_bqhv_bvhf :: "arith \<Rightarrow> fl tensor4 \<Rightarrow> fl tensor4 \<Rightarrow> fl tensor4" where
  "einsum_bqhv_bvhf A w y =
     map2 (\<lambda>wb yb. map (\<lambda>wq. map (\<lambda>h. map (\<lambda>f. f_dot A (wq ! h) (map (\<lambda>yv. yv ! h ! f) yb))
                                          [0..<dim2 yb])
                                [0..<length wq]) wb) w y"

text \<open>\<^verbatim>\<open>jnp.moveaxis(t, 1, 2)\<close>.\<close>

definition moveaxis_1_2 :: "'a tensor4 \<Rightarrow> 'a tensor4" where
  "moveaxis_1_2 t = map (\<lambda>x. map (\<lambda>j. map (\<lambda>i. x ! i ! j) [0..<length x]) [0..<dim1 x]) t"

text \<open>\<^verbatim>\<open>jnp.max(t, axis=-1, keepdims=True)\<close> and \<^verbatim>\<open>t.sum(axis=-1, keepdims=True)\<close>.\<close>

definition max_keepdims :: "fl tensor4 \<Rightarrow> fl tensor4" where
  "max_keepdims t = map (map (map (\<lambda>row. [max_row row]))) t"

definition sum_keepdims :: "arith \<Rightarrow> fl tensor4 \<Rightarrow> fl tensor4" where
  "sum_keepdims A t = map (map (map (\<lambda>row. [f_sum A row]))) t"

text \<open>
  Lines 95 to 98 of \<^verbatim>\<open>summarize_chunk\<close>: the scores of one block pair, the product of
  queries and keys plus the bias tile.
\<close>

definition attn_scores ::
  "arith \<Rightarrow> (nat \<Rightarrow> nat \<Rightarrow> error + fl tensor4) \<Rightarrow> fl tensor4 \<Rightarrow> nat \<Rightarrow> fl tensor4 \<Rightarrow> nat \<Rightarrow>
   error + fl tensor4" where
  "attn_scores A chunk_bias_fn query_chunk query_chunk_idx key_chunk key_chunk_idx =
     (let attn_weights = einsum_bqhd_bkhd A query_chunk key_chunk
      in case chunk_bias_fn query_chunk_idx key_chunk_idx of
           Inl e \<Rightarrow> Inl e
         | Inr bias_chunk \<Rightarrow> Inr (broadcast4 (f_add A) attn_weights (moveaxis_1_2 bias_chunk)))"

text \<open>
  \<^verbatim>\<open>summarize_chunk\<close>: one step of the online softmax. \<^verbatim>\<open>jnp.max\<close> over an empty key
  axis raises.
\<close>

definition summarize_chunk ::
  "arith \<Rightarrow> (nat \<Rightarrow> nat \<Rightarrow> error + fl tensor4) \<Rightarrow> fl tensor4 \<Rightarrow> nat \<Rightarrow> Carry \<Rightarrow>
   fl tensor4 \<times> fl tensor4 \<times> nat \<Rightarrow> error + Carry \<times> unit" where
  "summarize_chunk A chunk_bias_fn query_chunk query_chunk_idx carry args =
     (case args of (key_chunk, value_chunk, key_chunk_idx) \<Rightarrow>
      (case attn_scores A chunk_bias_fn query_chunk query_chunk_idx key_chunk key_chunk_idx of
         Inl e \<Rightarrow> Inl e
       | Inr attn_weights \<Rightarrow>
           if list_ex (list_ex (list_ex (\<lambda>row. row = []))) attn_weights then Inl ValueError
           else
             let prev_max_score = max_so_far carry;
                 max_score = max_keepdims attn_weights;
                 max_score = broadcast4 fmaximum prev_max_score max_score;
                 exp_weights = broadcast4 (\<lambda>a m. f_exp A (f_sub A a m)) attn_weights max_score;
                 exp_values = einsum_bqhv_bvhf A exp_weights value_chunk;
                 correction = broadcast4 (\<lambda>p m. f_exp A (f_sub A p m)) prev_max_score max_score
             in Inr (\<lparr> numerator = broadcast4 (f_add A)
                                      (broadcast4 (f_mul A) (numerator carry) correction) exp_values,
                       denominator = broadcast4 (f_add A)
                                      (broadcast4 (f_mul A) (denominator carry) correction)
                                      (sum_keepdims A exp_weights),
                       max_so_far = max_score \<rparr>, ())))"

text \<open>
  \<^verbatim>\<open>skip_upper_half\<close>: \<^verbatim>\<open>lax.cond\<close> returns the carry as it is when the block is
  skipped and runs \<^verbatim>\<open>summarize_chunk\<close> otherwise.
\<close>

definition skip_block :: "bool \<Rightarrow> nat \<Rightarrow> nat \<Rightarrow> bool" where
  "skip_block causal query_chunk_idx key_chunk_idx =
     (if causal then query_chunk_idx < key_chunk_idx else False)"

definition skip_upper_half ::
  "bool \<Rightarrow> arith \<Rightarrow> (nat \<Rightarrow> nat \<Rightarrow> error + fl tensor4) \<Rightarrow> fl tensor4 \<Rightarrow> nat \<Rightarrow> Carry \<Rightarrow>
   fl tensor4 \<times> fl tensor4 \<times> nat \<Rightarrow> error + Carry \<times> unit" where
  "skip_upper_half causal A chunk_bias_fn query_chunk query_chunk_idx carry args =
     (case args of (key_chunk, value_chunk, key_chunk_idx) \<Rightarrow>
        if skip_block causal query_chunk_idx key_chunk_idx then Inr (carry, ())
        else summarize_chunk A chunk_bias_fn query_chunk query_chunk_idx carry args)"

text \<open>The initial carry of \<^verbatim>\<open>_query_chunk_attention\<close> (lines 125 to 129).\<close>

definition init_carry :: "nat \<Rightarrow> nat \<Rightarrow> nat \<Rightarrow> nat \<Rightarrow> Carry" where
  "init_carry batch query_chunk_size num_heads dim_per_head =
     \<lparr> numerator = tab4 batch query_chunk_size num_heads dim_per_head (\<lambda>_ _ _ _. Fin 0),
       denominator = tab4 batch query_chunk_size num_heads dim_per_head (\<lambda>_ _ _ _. Fin 0),
       max_so_far = tab4 batch query_chunk_size num_heads 1 (\<lambda>_ _ _ _. NegInf) \<rparr>"

text \<open>
  \<^verbatim>\<open>_query_chunk_attention\<close>: the scan over the key chunks, the value chunks and
  \<^verbatim>\<open>jnp.arange(0, num_kv)\<close>, then the division. \<^verbatim>\<open>num_kv\<close> is the number of key
  chunks; \<^verbatim>\<open>lax.scan\<close> raises when the value chunks are not as many.
\<close>

definition query_chunk_attention ::
  "bool \<Rightarrow> arith \<Rightarrow> (nat \<Rightarrow> nat \<Rightarrow> error + fl tensor4) \<Rightarrow> nat \<Rightarrow> nat \<Rightarrow> nat \<Rightarrow> nat \<Rightarrow>
   fl tensor4 list \<Rightarrow> fl tensor4 list \<Rightarrow> fl tensor4 \<times> nat \<Rightarrow> error + fl tensor4" where
  "query_chunk_attention causal A chunk_bias_fn batch query_chunk_size num_heads dim_per_head
       key value args =
     (case args of (query_chunk, query_chunk_idx) \<Rightarrow>
        if length value \<noteq> length key then Inl ValueError
        else
          (case scan (skip_upper_half causal A chunk_bias_fn query_chunk query_chunk_idx)
                  (init_carry batch query_chunk_size num_heads dim_per_head)
                  (zip key (zip value [0..<length key])) of
             Inl e \<Rightarrow> Inl e
           | Inr (carry, _) \<Rightarrow>
               Inr (broadcast4 (f_div A) (numerator carry) (denominator carry))))"

text \<open>
  \<^verbatim>\<open>blockwise_attn\<close>. The argument \<^verbatim>\<open>dropout_rng\<close> stands for the Bernoulli sample that
  \<^verbatim>\<open>jax.random.bernoulli\<close> draws from the random stream: it tells for every index whether
  the entry is flagged. The shape of an absent bias is read at line 74, which raises.
\<close>

definition bias_dims_ok :: "'a tensor4 \<Rightarrow> nat \<Rightarrow> nat \<Rightarrow> nat \<Rightarrow> nat \<Rightarrow> bool" where
  "bias_dims_ok b batch num_heads q_len kv_len \<longleftrightarrow>
     list_all (\<lambda>(bias_dim, broadcast_dim). bias_dim = 1 \<or> bias_dim = broadcast_dim)
       (zip [dim0 b, dim1 b, dim2 b, dim3 b] [batch, num_heads, q_len, kv_len])"

definition blockwise_attn ::
  "arith \<Rightarrow> fl tensor4 \<Rightarrow> fl tensor4 \<Rightarrow> fl tensor4 \<Rightarrow> fl tensor4 option \<Rightarrow> bool \<Rightarrow>
   (nat \<Rightarrow> nat \<Rightarrow> nat \<Rightarrow> nat \<Rightarrow> bool) \<Rightarrow> real \<Rightarrow> bool \<Rightarrow> nat \<Rightarrow> nat \<Rightarrow> dtype \<Rightarrow> bool \<Rightarrow>
   error + fl tensor4" where
  "blockwise_attn A query key value bias deterministic dropout_rng attn_pdrop causal
       query_chunk_size key_chunk_size dtype float32_logits =
     (let query = map (map (map (map (\<lambda>x. f_div A x (f_sqrt A (Fin (real (dim3 query)))))))) query;
          q_len = dim1 query;
          kv_len = dim1 key;
          batch = dim0 query;
          num_heads = dim2 query;
          dim_per_head = dim3 query
      in case rearrange_split query_chunk_size query of
           Inl e \<Rightarrow> Inl e
         | Inr query_chunks \<Rightarrow>
        (case rearrange_split key_chunk_size key of
           Inl e \<Rightarrow> Inl e
         | Inr key_chunks \<Rightarrow>
        (case rearrange_split key_chunk_size value of
           Inl e \<Rightarrow> Inl e
         | Inr value_chunks \<Rightarrow>
        (case bias of
           None \<Rightarrow> Inl AttributeError
         | Some b \<Rightarrow>
             if \<not> bias_dims_ok b batch num_heads q_len kv_len then Inl AssertionError
             else
               let attn_dropout =
                     (if \<not> deterministic \<and> attn_pdrop > 0
                      then Some (tab4 batch num_heads q_len kv_len dropout_rng) else None);
                   chunk_bias_fn = chunk_attention_bias A query_chunk_size key_chunk_size bias
                     deterministic attn_dropout attn_pdrop causal dtype
               in (case scan (\<lambda>u x.
                          case query_chunk_attention causal A chunk_bias_fn batch query_chunk_size
                                 num_heads dim_per_head key_chunks value_chunks x of
                            Inl e \<Rightarrow> Inl e
                          | Inr outputs \<Rightarrow> Inr (u, outputs))
                        () (zip query_chunks [0..<length query_chunks]) of
                     Inl e \<Rightarrow> Inl e
                   | Inr (_, res) \<Rightarrow> Inr (rearrange_merge res))))))"

text \<open>
  The unchunked reference of the specification: softmax attention over the whole sequence,
  in real numbers. The score of query position \<^verbatim>\<open>i\<close> and key position \<^verbatim>\<open>j\<close> is the
  scaled product plus the bias (broadcast) plus, under causal attention, the large negative
  value wherever \<^verbatim>\<open>j > i\<close>; the output is the softmax-weighted sum of the values.
\<close>

definition reference_scores ::
  "real tensor4 \<Rightarrow> real tensor4 \<Rightarrow> real tensor4 \<Rightarrow> bool \<Rightarrow> dtype \<Rightarrow> real tensor4" where
  "reference_scores query key bias causal dtype =
     tab4 (dim0 query) (dim1 query) (dim2 query) (dim1 key) (\<lambda>b i h j.
       sum_list (map2 (*) (query ! b ! i ! h) (key ! b ! j ! h)) / sqrt (real (dim3 query))
       + bias ! bidx (dim0 bias) b ! bidx (dim1 bias) h ! bidx (dim2 bias) i ! bidx (dim3 bias) j
       + (if causal \<and> i < j then finfo_min dtype else 0))"

definition attention_reference ::
  "real tensor4 \<Rightarrow> real tensor4 \<Rightarrow> real tensor4 \<Rightarrow> real tensor4 \<Rightarrow> bool \<Rightarrow> dtype \<Rightarrow> real tensor4" where
  "attention_reference query key value bias causal dtype =
     (let scores = reference_scores query key bias causal dtype
      in tab4 (dim0 query) (dim1 query) (dim2 query) (dim3 value) (\<lambda>b i h f.
           sum_list (map (\<lambda>j. exp (scores ! b ! i ! h ! j) * value ! b ! j ! h ! f) [0..<dim1 key])
           / sum_list (map (\<lambda>j. exp (scores ! b ! i ! h ! j)) [0..<dim1 key])))"

text \<open>
  The key blocks that a query block processes, as the specification speaks of them: the
  indices below \<^verbatim>\<open>num_kv\<close> at which \<^verbatim>\<open>skip_upper_half\<close> does not skip.
\<close>

definition processed_key_blocks :: "bool \<Rightarrow> nat \<Rightarrow> nat \<Rightarrow> nat list" where
  "processed_key_blocks causal query_chunk_idx num_kv =
     filter (\<lambda>key_chunk_idx. \<not> skip_block causal query_chunk_idx key_chunk_idx) [0..<num_kv]"

section \<open>Blockwise feed-forward\<close>

text \<open>
  \<^verbatim>\<open>rearrange(inputs, 'b (c n) d -> b c n d', c=chunk_size)\<close>: entry \<^verbatim>\<open>[b][c][n]\<close> of the
  result is entry \<^verbatim>\<open>[b][c * N + n]\<close> of the operand. The last axis is kept inside the
  entries.
\<close>

definition rearrange_ffn_split :: "nat \<Rightarrow> 'a list list \<Rightarrow> error + 'a list list list" where
  "rearrange_ffn_split c t =
     (if c = 0 \<or> dim1 t mod c \<noteq> 0 then Inl RearrangeError
      else let n = dim1 t div c
           in Inr (map (\<lambda>row. map (\<lambda>ci. map (\<lambda>ni. row ! (ci * n + ni)) [0..<n]) [0..<c]) t))"

text \<open>The slice of a \<^verbatim>\<open>(b, c, n)\<close> tensor at index \<^verbatim>\<open>ni\<close> of axis 2.\<close>

definition slice_axis2 :: "'a list list list \<Rightarrow> nat \<Rightarrow> 'a list list" where
  "slice_axis2 t ni = map (map (\<lambda>row. row ! ni)) t"

text \<open>Stacking the per-step outputs along axis 2 (\<^verbatim>\<open>out_axes\<close>).\<close>

definition stack_axis2 :: "nat \<Rightarrow> nat \<Rightarrow> 'b list list list \<Rightarrow> 'b list list list" where
  "stack_axis2 b c ys = map (\<lambda>bi. map (\<lambda>ci. map (\<lambda>y. y ! bi ! ci) ys) [0..<c]) [0..<b]"

text \<open>
  \<^verbatim>\<open>blockwise_ffn\<close>. The cell's \<^verbatim>\<open>forward_ffn\<close> is a parameter; \<^verbatim>\<open>nn.scan\<close> runs it on
  the slices of axis 2 in ascending order with the carry \<^verbatim>\<open>None\<close>, and the last
  \<^verbatim>\<open>rearrange\<close> merges the axes \<^verbatim>\<open>(c n)\<close> again.
\<close>

definition blockwise_ffn ::
  "('a list list \<Rightarrow> bool \<Rightarrow> 'b list list) \<Rightarrow> 'a list list \<Rightarrow> nat \<Rightarrow> bool \<Rightarrow> error + 'b list list" where
  "blockwise_ffn forward_ffn inputs chunk_size deterministic =
     (case rearrange_ffn_split chunk_size inputs of
        Inl e \<Rightarrow> Inl e
      | Inr inputs' \<Rightarrow>
          (case scan (\<lambda>carry hidden_states. Inr (carry, forward_ffn hidden_states deterministic))
                  () (map (slice_axis2 inputs') [0..<dim2 inputs']) of
             Inl e \<Rightarrow> Inl e
           | Inr (_, ys) \<Rightarrow> Inr (map concat (stack_axis2 (dim0 inputs') (dim1 inputs') ys))))"

text \<open>
  The same computation with the blocks visited in any given order, the output of block
  \<^verbatim>\<open>ni\<close> being stored at index \<^verbatim>\<open>ni\<close> of axis 2. It states what the specification means
  by processing the blocks in any order; the order \<^verbatim>\<open>[0..<n]\<close> is the scan of the source.
\<close>

definition blockwise_ffn_in_order ::
  "nat list \<Rightarrow> ('a list list \<Rightarrow> bool \<Rightarrow> 'b list list) \<Rightarrow> 'a list list \<Rightarrow> nat \<Rightarrow> bool \<Rightarrow>
   error + 'b list list" where
  "blockwise_ffn_in_order order forward_ffn inputs chunk_size deterministic =
     (case rearrange_ffn_split chunk_size inputs of
        Inl e \<Rightarrow> Inl e
      | Inr inputs' \<Rightarrow>
          (case scan (\<lambda>carry ni. Inr (carry, (ni, forward_ffn (slice_axis2 inputs' ni) deterministic)))
                  () order of
             Inl e \<Rightarrow> Inl e
           | Inr (_, ys) \<Rightarrow>
               Inr (map concat (stack_axis2 (dim0 inputs') (dim1 inputs')
                 (map (\<lambda>ni. case map_of ys ni of Some y \<Rightarrow> y | None \<Rightarrow> [])
                    [0..<dim2 inputs'])))))"

section \<open>Blockwise cross-entropy\<close>

text \<open>
  \<^verbatim>\<open>jax.nn.log_softmax\<close> of one row, \<^verbatim>\<open>jnp.argmax\<close> of one row (the first index of the
  maximum) and \<^verbatim>\<open>jnp.take_along_axis\<close> at one row: a negative index counts from the end
  and an index out of range yields NaN (the default fill mode), written \<^verbatim>\<open>None\<close>.
\<close>

definition log_softmax :: "real list \<Rightarrow> real list" where
  "log_softmax xs = map (\<lambda>x. x - ln (sum_list (map exp xs))) xs"

fun argmax :: "real list \<Rightarrow> nat" where
  "argmax [] = 0"
| "argmax (x # xs) = (if list_all (\<lambda>y. y \<le> x) xs then 0 else Suc (argmax xs))"

definition take_along :: "real list \<Rightarrow> int \<Rightarrow> real option" where
  "take_along row t =
     (let v = int (length row); j = (if t < 0 then t + v else t)
      in if 0 \<le> j \<and> j < v then Some (row ! nat j) else None)"

text \<open>Sums in which NaN (\<^verbatim>\<open>None\<close>) propagates.\<close>

definition nan_add :: "real option \<Rightarrow> real option \<Rightarrow> real option" where
  "nan_add a b = (case a of None \<Rightarrow> None | Some x \<Rightarrow> (case b of None \<Rightarrow> None | Some y \<Rightarrow> Some (x + y)))"

definition nan_sum :: "real option list \<Rightarrow> real option" where
  "nan_sum xs = foldr nan_add xs (Some 0)"

text \<open>
  \<^verbatim>\<open>loss_acc\<close> on one block: the masked log-probabilities of the targets, the masked
  top-1 indicators and the floored number of valid positions. \<^verbatim>\<open>jnp.argmax\<close> raises on
  an empty vocabulary axis.
\<close>

definition loss_acc ::
  "real list list \<Rightarrow> int list \<Rightarrow> real list \<Rightarrow> error + real option list \<times> bool list \<times> real" where
  "loss_acc logits tokens valid =
     (if list_ex (\<lambda>row. row = []) logits then Inl ValueError
      else
        let valid_text_length = max (sum_list valid) (1 / 10 ^ 10);
            token_log_prob = map2 (\<lambda>row t. take_along (log_softmax row) t) logits tokens;
            token_log_prob = map2 (\<lambda>v lp. if v > 0 then lp else Some 0) valid token_log_prob;
            correct = map2 (\<lambda>v c. if v > 0 then c else False) valid
                        (map2 (\<lambda>row t. int (argmax row) = t) logits tokens)
        in Inr (token_log_prob, correct, valid_text_length))"

text \<open>\<^verbatim>\<open>_loss_and_accuracy\<close>: one step of the fold over the blocks.\<close>

definition loss_and_accuracy ::
  "real option \<times> real \<times> nat \<Rightarrow> real list list \<times> int list \<times> real list \<Rightarrow>
   error + (real option \<times> real \<times> nat) \<times> unit" where
  "loss_and_accuracy carry args =
     (case carry of (loss, accuracy, num) \<Rightarrow>
      (case args of (logits, tokens, valid) \<Rightarrow>
      (case loss_acc logits tokens valid of
         Inl e \<Rightarrow> Inl e
       | Inr (token_log_prob, correct, valid_text_length) \<Rightarrow>
           Inr ((nan_add loss (map_option (\<lambda>s. s / valid_text_length) (nan_sum token_log_prob)),
                 accuracy + real (length (filter id correct)) / valid_text_length,
                 num + 1), ()))))"

text \<open>\<^verbatim>\<open>rearrange(xs, '(n c) ... -> n c ...', c=c)\<close>: consecutive blocks of \<^verbatim>\<open>c\<close> entries.\<close>

definition rearrange_blocks :: "nat \<Rightarrow> 'a list \<Rightarrow> error + 'a list list" where
  "rearrange_blocks c xs =
     (if c = 0 \<or> length xs mod c \<noteq> 0 then Inl RearrangeError
      else Inr (map (\<lambda>i. take c (drop (i * c) xs)) [0..<length xs div c]))"

text \<open>
  \<^verbatim>\<open>blockwise_cross_entropy\<close>. The arguments have the axes \<^verbatim>\<open>(batch, sequence)\<close> before
  they are flattened. The final divisions by a block count of 0 yield NaN.
\<close>

definition blockwise_cross_entropy ::
  "real list list list \<Rightarrow> int list list \<Rightarrow> nat \<Rightarrow> real list list option \<Rightarrow>
   error + real option \<times> real option" where
  "blockwise_cross_entropy logits tokens chunk_size valid =
     (let valid = (case valid of None \<Rightarrow> map (map (\<lambda>_. 1)) tokens | Some v \<Rightarrow> v);
          logits = concat logits;
          tokens = concat tokens;
          valid = concat valid
      in case rearrange_blocks chunk_size logits of
           Inl e \<Rightarrow> Inl e
         | Inr logits \<Rightarrow>
        (case rearrange_blocks chunk_size tokens of
           Inl e \<Rightarrow> Inl e
         | Inr tokens \<Rightarrow>
        (case rearrange_blocks chunk_size valid of
           Inl e \<Rightarrow> Inl e
         | Inr valid \<Rightarrow>
        (case scan loss_and_accuracy (Some 0, 0, 0) (zip logits (zip tokens valid)) of
           Inl e \<Rightarrow> Inl e
         | Inr ((loss, accuracy, num), _) \<Rightarrow>
             if num = 0 then Inr (None, None)
             else Inr (map_option (\<lambda>l. - l / real num) loss, Some (accuracy / real num))))))"

text \<open>
  The block contributions as the specification words them. The log-probability of the
  target is its logit minus the logarithm of the sum of the exponentials of the row. A
  position is top-1 correct when the target is the index of the greatest logit of the row,
  the first such index if there are several. Each sum over a block counts the positions
  whose validity is above 0 and is divided by the block's valid count floored at
  \<^verbatim>\<open>1e-10\<close>.
\<close>

definition block_valid_count :: "real list \<Rightarrow> real" where
  "block_valid_count valid = max (sum_list valid) (1 / 10 ^ 10)"

definition target_log_prob :: "real list \<Rightarrow> int \<Rightarrow> real" where
  "target_log_prob row t = row ! nat t - ln (sum_list (map exp row))"

definition top1_correct :: "real list \<Rightarrow> int \<Rightarrow> bool" where
  "top1_correct row t \<longleftrightarrow>
     0 \<le> t \<and> t < int (length row) \<and>
     list_all (\<lambda>i. row ! i \<le> row ! nat t) [0..<length row] \<and>
     list_all (\<lambda>i. row ! i < row ! nat t) [0..<nat t]"

definition block_loss_contribution :: "real list list \<Rightarrow> int list \<Rightarrow> real list \<Rightarrow> real" where
  "block_loss_contribution logits tokens valid =
     sum_list (map (\<lambda>j. if valid ! j > 0 then target_log_prob (logits ! j) (tokens ! j) else 0)
                 [0..<length valid])
     / block_valid_count valid"

definition block_accuracy_contribution :: "real list list \<Rightarrow> int list \<Rightarrow> real list \<Rightarrow> real" where
  "block_accuracy_contribution logits tokens valid =
     sum_list (map (\<lambda>j. if valid ! j > 0 \<and> top1_correct (logits ! j) (tokens ! j) then 1 else 0)
                 [0..<length valid])
     / block_valid_count valid"

section \<open>Arithmetic without rounding\<close>

text \<open>
  The arithmetic in which every finite result is the exact real number and the special
  values behave as IEEE 754 prescribes. Floating-point arithmetic agrees with it wherever the
  exact result is a number of the working format; it serves to run the attention functions
  on concrete inputs.
\<close>

fun x_add :: "fl \<Rightarrow> fl \<Rightarrow> fl" where
  "x_add NaN y = NaN"
| "x_add x NaN = NaN"
| "x_add (Fin a) (Fin b) = Fin (a + b)"
| "x_add PosInf NegInf = NaN"
| "x_add NegInf PosInf = NaN"
| "x_add PosInf y = PosInf"
| "x_add x PosInf = PosInf"
| "x_add NegInf y = NegInf"
| "x_add x NegInf = NegInf"

fun x_neg :: "fl \<Rightarrow> fl" where
  "x_neg NaN = NaN"
| "x_neg NegInf = PosInf"
| "x_neg PosInf = NegInf"
| "x_neg (Fin a) = Fin (- a)"

fun x_mul :: "fl \<Rightarrow> fl \<Rightarrow> fl" where
  "x_mul NaN y = NaN"
| "x_mul x NaN = NaN"
| "x_mul (Fin a) (Fin b) = Fin (a * b)"
| "x_mul (Fin a) PosInf = (if a = 0 then NaN else if 0 < a then PosInf else NegInf)"
| "x_mul (Fin a) NegInf = (if a = 0 then NaN else if 0 < a then NegInf else PosInf)"
| "x_mul PosInf (Fin b) = (if b = 0 then NaN else if 0 < b then PosInf else NegInf)"
| "x_mul NegInf (Fin b) = (if b = 0 then NaN else if 0 < b then NegInf else PosInf)"
| "x_mul PosInf PosInf = PosInf"
| "x_mul PosInf NegInf = NegInf"
| "x_mul NegInf PosInf = NegInf"
| "x_mul NegInf NegInf = PosInf"

fun x_div :: "fl \<Rightarrow> fl \<Rightarrow> fl" where
  "x_div NaN y = NaN"
| "x_div x NaN = NaN"
| "x_div (Fin a) (Fin b) =
     (if b = 0 then (if a = 0 then NaN else if 0 < a then PosInf else NegInf) else Fin (a / b))"
| "x_div (Fin a) PosInf = Fin 0"
| "x_div (Fin a) NegInf = Fin 0"
| "x_div PosInf (Fin b) = (if 0 \<le> b then PosInf else NegInf)"
| "x_div NegInf (Fin b) = (if 0 \<le> b then NegInf else PosInf)"
| "x_div PosInf y = NaN"
| "x_div NegInf y = NaN"

fun x_exp :: "fl \<Rightarrow> fl" where
  "x_exp NaN = NaN"
| "x_exp NegInf = Fin 0"
| "x_exp PosInf = PosInf"
| "x_exp (Fin a) = Fin (exp a)"

fun x_sqrt :: "fl \<Rightarrow> fl" where
  "x_sqrt NaN = NaN"
| "x_sqrt NegInf = NaN"
| "x_sqrt PosInf = PosInf"
| "x_sqrt (Fin a) = (if a < 0 then NaN else Fin (sqrt a))"

definition exact_arith :: arith where
  "exact_arith =
     \<lparr> f_add = x_add,
       f_sub = (\<lambda>x y. x_add x (x_neg y)),
       f_mul = x_mul,
       f_div = x_div,
       f_exp = x_exp,
       f_sqrt = x_sqrt,
       f_sum = foldl x_add (Fin 0),
       f_dot = (\<lambda>xs ys. foldl x_add (Fin 0) (map2 x_mul xs ys)) \<rparr>"

section \<open>IEEE 754 arithmetic\<close>

text \<open>
  The binary formats of the four types: the number of significand bits (the hidden bit
  included) and the greatest exponent. The least exponent of a normal number is
  \<^verbatim>\<open>1 - emax\<close>, and \<^verbatim>\<open>- finfo_min\<close> is the greatest finite number.
\<close>

fun significand_bits :: "dtype \<Rightarrow> nat" where
  "significand_bits Float16 = 11"
| "significand_bits BFloat16 = 8"
| "significand_bits Float32 = 24"
| "significand_bits Float64 = 53"

fun emax :: "dtype \<Rightarrow> int" where
  "emax Float16 = 15"
| "emax BFloat16 = 127"
| "emax Float32 = 127"
| "emax Float64 = 1023"

text \<open>
  Rounding to nearest, ties to even: a real number is rounded to the nearest multiple of
  the unit in the last place of its binade (of the least binade for a subnormal number), and
  the result is infinite when it exceeds the greatest finite number.
\<close>

definition round_half_even :: "real \<Rightarrow> int" where
  "round_half_even q =
     (let f = \<lfloor>q\<rfloor>; r = q - of_int f
      in if r < 1 / 2 then f else if 1 / 2 < r then f + 1 else if even f then f else f + 1)"

definition float_exponent :: "dtype \<Rightarrow> real \<Rightarrow> int" where
  "float_exponent d x = max (1 - emax d) \<lfloor>log 2 \<bar>x\<bar>\<rfloor>"

definition round_to :: "dtype \<Rightarrow> real \<Rightarrow> fl" where
  "round_to d x =
     (if x = 0 then Fin 0
      else let u = 2 powi (float_exponent d x - int (significand_bits d) + 1);
               y = of_int (round_half_even (x / u)) * u
           in if - finfo_min d < \<bar>y\<bar> then (if 0 < x then PosInf else NegInf) else Fin y)"

text \<open>
  The arithmetic of one format: the results of the operations on finite operands are
  rounded, the special values behave as in the arithmetic without rounding. Adding or
  subtracting zero and multiplying or dividing by one return the other operand, as they do
  on the numbers of the format. The exponential is rounded from its exact value and a
  reduction adds from left to right; platforms differ in these two points.
\<close>

definition ieee_add :: "dtype \<Rightarrow> fl \<Rightarrow> fl \<Rightarrow> fl" where
  "ieee_add d x y =
     (if y = Fin 0 then x else if x = Fin 0 then y
      else case (x, y) of (Fin a, Fin b) \<Rightarrow> round_to d (a + b) | _ \<Rightarrow> x_add x y)"

definition ieee_mul :: "dtype \<Rightarrow> fl \<Rightarrow> fl \<Rightarrow> fl" where
  "ieee_mul d x y =
     (if y = Fin 1 then x else if x = Fin 1 then y
      else case (x, y) of (Fin a, Fin b) \<Rightarrow> round_to d (a * b) | _ \<Rightarrow> x_mul x y)"

definition ieee_div :: "dtype \<Rightarrow> fl \<Rightarrow> fl \<Rightarrow> fl" where
  "ieee_div d x y =
     (if y = Fin 1 then x
      else case (x, y) of
             (Fin a, Fin b) \<Rightarrow> if b = 0 then x_div x y else round_to d (a / b)
           | _ \<Rightarrow> x_div x y)"

definition ieee_exp :: "dtype \<Rightarrow> fl \<Rightarrow> fl" where
  "ieee_exp d x = (case x of Fin a \<Rightarrow> round_to d (exp a) | _ \<Rightarrow> x_exp x)"

definition ieee_sqrt :: "dtype \<Rightarrow> fl \<Rightarrow> fl" where
  "ieee_sqrt d x =
     (case x of Fin a \<Rightarrow> if a < 0 then NaN else round_to d (sqrt a) | _ \<Rightarrow> x_sqrt x)"

definition ieee_arith :: "dtype \<Rightarrow> arith" where
  "ieee_arith d =
     \<lparr> f_add = ieee_add d,
       f_sub = (\<lambda>x y. ieee_add d x (x_neg y)),
       f_mul = ieee_mul d,
       f_div = ieee_div d,
       f_exp = ieee_exp d,
       f_sqrt = ieee_sqrt d,
       f_sum = foldl (ieee_add d) (Fin 0),
       f_dot = (\<lambda>xs ys. foldl (ieee_add d) (Fin 0) (map2 (ieee_mul d) xs ys)) \<rparr>"

text \<open>
  Facts of floating-point arithmetic that hold in every IEEE 754 format and for every order
  of a reduction: zero and one are neutral, the special values of the exponential, and the
  operations on 0, 1, 2 and 4 whose exact results are numbers of the format.
\<close>

definition arith_basic :: "arith \<Rightarrow> bool" where
  "arith_basic A \<longleftrightarrow>
     (\<forall>x. f_add A x (Fin 0) = x) \<and> (\<forall>x. f_add A (Fin 0) x = x) \<and>
     (\<forall>x. f_sub A x (Fin 0) = x) \<and> (\<forall>a. f_sub A NegInf (Fin a) = NegInf) \<and>
     (\<forall>x. f_mul A x (Fin 1) = x) \<and> (\<forall>a. f_mul A (Fin 0) (Fin a) = Fin 0) \<and>
     (\<forall>x. f_div A x (Fin 1) = x) \<and>
     f_sqrt A (Fin 1) = Fin 1 \<and> f_exp A (Fin 0) = Fin 1 \<and> f_exp A NegInf = Fin 0 \<and>
     f_dot A [Fin 0] [Fin 0] = Fin 0 \<and> f_dot A [Fin 0] [Fin 1] = Fin 0 \<and>
     f_dot A [Fin 1] [Fin 0] = Fin 0 \<and> f_dot A [Fin 1] [Fin 1] = Fin 1 \<and>
     f_dot A [Fin 1, Fin 1] [Fin 0, Fin 0] = Fin 0 \<and>
     f_dot A [Fin 1, Fin 1] [Fin 1, Fin 0] = Fin 1 \<and>
     f_dot A [Fin 1, Fin 1] [Fin 0, Fin 1] = Fin 1 \<and>
     f_sum A [Fin 1, Fin 1] = Fin 2 \<and>
     f_add A (Fin 2) (Fin 2) = Fin 4 \<and>
     f_div A (Fin 0) (Fin 2) = Fin 0 \<and> f_div A (Fin 0) (Fin 4) = Fin 0 \<and>
     f_div A (Fin 1) (Fin 2) = Fin (1 / 2) \<and> f_div A (Fin 1) (Fin 4) = Fin (1 / 4)"

section \<open>Basic facts about the tensor operations\<close>

lemma upt_0_1: "[0..<1] = [0]"
  by simp

lemma upt_0_Suc_0: "[0..<Suc 0] = [0]"
  by simp

lemma upt_0_2: "[0..<2] = [0, 1]"
  by (simp add: upt_rec)

lemma upt_0_4: "[0..<4] = [0, 1, 2, 3]"
  by (simp add: upt_rec)

lemmas upt_evals = upt_0_1 upt_0_Suc_0 upt_0_2 upt_0_4

lemma tab4_nth:
  "i < n0 \<Longrightarrow> j < n1 \<Longrightarrow> k < n2 \<Longrightarrow> l < n3 \<Longrightarrow> tab4 n0 n1 n2 n3 f ! i ! j ! k ! l = f i j k l"
  by (simp add: tab4_def)

lemma has_shape4_tab4: "has_shape4 (tab4 n0 n1 n2 n3 f) n0 n1 n2 n3"
  by (simp add: has_shape4_def tab4_def list_all_iff)

lemma has_shape4_nth:
  assumes "has_shape4 t n0 n1 n2 n3"
  shows "length t = n0"
    and "i < n0 \<Longrightarrow> length (t ! i) = n1"
    and "i < n0 \<Longrightarrow> j < n1 \<Longrightarrow> length (t ! i ! j) = n2"
    and "i < n0 \<Longrightarrow> j < n1 \<Longrightarrow> k < n2 \<Longrightarrow> length (t ! i ! j ! k) = n3"
  using assms by (auto simp: has_shape4_def list_all_length)

lemma finfo_min_neg: "finfo_min d < 0"
  by (cases d) simp_all

lemma broadcast2_1_1: "broadcast2 f [x] [y] = [f x y]"
  by (simp add: broadcast2_def bdim_def bidx_def)

lemma broadcast2_1_2: "broadcast2 f [x] [y1, y2] = [f x y1, f x y2]"
  by (simp add: broadcast2_def bdim_def bidx_def upt_0_2)

lemma broadcast2_2_1: "broadcast2 f [x1, x2] [y] = [f x1 y, f x2 y]"
  by (simp add: broadcast2_def bdim_def bidx_def upt_0_2)

lemma broadcast2_2_2: "broadcast2 f [x1, x2] [y1, y2] = [f x1 y1, f x2 y2]"
  by (simp add: broadcast2_def bdim_def bidx_def upt_0_2)

lemmas broadcast2_evals = broadcast2_1_1 broadcast2_1_2 broadcast2_2_1 broadcast2_2_2

lemma arith_basic_exact: "arith_basic exact_arith"
  unfolding arith_basic_def exact_arith_def
  apply simp
  apply (intro conjI allI)
  subgoal for x by (cases x) simp_all
  subgoal for x by (cases x) simp_all
  subgoal for x by (cases x) simp_all
  subgoal for x by (cases x) simp_all
  subgoal for x by (cases x) simp_all
  done

section \<open>The absent bias\<close>

lemma dim1_map_map: "dim1 (map (map f) t) = dim1 t"
  by (cases t) (simp_all add: dim1_def)

text \<open>
  Claim C8. The claim says that \<^verbatim>\<open>blockwise_attn\<close> accepts an absent bias and completes
  without error. The code reads \<^verbatim>\<open>bias.shape\<close> at line 74 before any block is processed:
  with \<^verbatim>\<open>bias = None\<close> every call ends in an error, and for chunk sizes that divide the
  sequence lengths the error is the attribute error of that line.
\<close>

theorem blockwise_attn_absent_bias_raises:
  "(\<exists>e. blockwise_attn A query key value None deterministic dropout_rng attn_pdrop causal
          query_chunk_size key_chunk_size dtype float32_logits = Inl e) \<and>
   (0 < query_chunk_size \<and> dim1 query mod query_chunk_size = 0 \<and>
    0 < key_chunk_size \<and> dim1 key mod key_chunk_size = 0 \<and> dim1 value mod key_chunk_size = 0 \<longrightarrow>
    blockwise_attn A query key value None deterministic dropout_rng attn_pdrop causal
      query_chunk_size key_chunk_size dtype float32_logits = Inl AttributeError)"
  by (simp add: blockwise_attn_def rearrange_split_def Let_def dim1_map_map)

theorem blockwise_attn_absent_bias_raises_witness:
  "blockwise_attn exact_arith [[[[Fin 1]], [[Fin 2]]]] [[[[Fin 1]], [[Fin 2]]]]
     [[[[Fin 3]], [[Fin 4]]]] None True (\<lambda>_ _ _ _. False) 0 False 1 1 Float32 False
     = Inl AttributeError"
  using blockwise_attn_absent_bias_raises [of exact_arith "[[[[Fin 1]], [[Fin 2]]]]"
          "[[[[Fin 1]], [[Fin 2]]]]" "[[[[Fin 3]], [[Fin 4]]]]" True "\<lambda>_ _ _ _. False" 0 False
          1 1 Float32 False]
  by (simp add: dim1_def)

section \<open>The initial carry\<close>

lemma scan_unit_carry:
  "scan (\<lambda>u x. case g x of Inl e \<Rightarrow> Inl e | Inr y \<Rightarrow> Inr (u, y)) () xs = Inr ((), ys)
   \<longleftrightarrow> list_all2 (\<lambda>x y. g x = Inr y) xs ys"
proof (induction xs arbitrary: ys)
  case Nil
  then show ?case by auto
next
  case (Cons x xs)
  show ?case
  proof (cases "g x")
    case (Inl e)
    then show ?thesis by (simp add: list_all2_Cons1)
  next
    case (Inr y)
    then show ?thesis
      by (cases "scan (\<lambda>u x. case g x of Inl e \<Rightarrow> Inl e | Inr y \<Rightarrow> Inr (u, y)) () xs")
         (auto simp: list_all2_Cons1 Cons.IH [symmetric])
  qed
qed

text \<open>
  Claim C6, as the code has it. The reduction of every query block starts from
  \<^verbatim>\<open>init_carry\<close>: the numerator and the denominator are both zero tensors of shape
  (batch, query chunk size, heads, head dimension), and the running maximum is \<^verbatim>\<open>-inf\<close>
  of shape (batch, query chunk size, heads, 1). The outer scan threads no carry: its
  outputs are those of independent calls of \<^verbatim>\<open>_query_chunk_attention\<close>, each of which
  scans from the initial carry unless the key and value chunks differ in number.
\<close>

theorem init_carry_data_model:
  "has_shape4 (numerator (init_carry batch query_chunk_size num_heads dim_per_head))
     batch query_chunk_size num_heads dim_per_head \<and>
   has_shape4 (denominator (init_carry batch query_chunk_size num_heads dim_per_head))
     batch query_chunk_size num_heads dim_per_head \<and>
   has_shape4 (max_so_far (init_carry batch query_chunk_size num_heads dim_per_head))
     batch query_chunk_size num_heads 1 \<and>
   (\<forall>i j k. i < batch \<and> j < query_chunk_size \<and> k < num_heads \<longrightarrow>
      (\<forall>l < dim_per_head.
         numerator (init_carry batch query_chunk_size num_heads dim_per_head) ! i ! j ! k ! l = Fin 0 \<and>
         denominator (init_carry batch query_chunk_size num_heads dim_per_head) ! i ! j ! k ! l = Fin 0) \<and>
      max_so_far (init_carry batch query_chunk_size num_heads dim_per_head) ! i ! j ! k ! 0 = NegInf) \<and>
   query_chunk_attention causal A chunk_bias_fn batch query_chunk_size num_heads dim_per_head
       key value (query_chunk, query_chunk_idx) =
     (if length value \<noteq> length key then Inl ValueError
      else case scan (skip_upper_half causal A chunk_bias_fn query_chunk query_chunk_idx)
             (init_carry batch query_chunk_size num_heads dim_per_head)
             (zip key (zip value [0..<length key])) of
        Inl e \<Rightarrow> Inl e
      | Inr (carry, _) \<Rightarrow> Inr (broadcast4 (f_div A) (numerator carry) (denominator carry))) \<and>
   (scan (\<lambda>u x. case query_chunk_attention causal A chunk_bias_fn batch query_chunk_size num_heads
                       dim_per_head key value x of
                  Inl e \<Rightarrow> Inl e
                | Inr outputs \<Rightarrow> Inr (u, outputs)) () xs = Inr ((), res)
    \<longleftrightarrow> list_all2 (\<lambda>x outputs. query_chunk_attention causal A chunk_bias_fn batch query_chunk_size
                       num_heads dim_per_head key value x = Inr outputs) xs res)"
proof -
  have shapes:
    "has_shape4 (numerator (init_carry batch query_chunk_size num_heads dim_per_head))
       batch query_chunk_size num_heads dim_per_head"
    "has_shape4 (denominator (init_carry batch query_chunk_size num_heads dim_per_head))
       batch query_chunk_size num_heads dim_per_head"
    "has_shape4 (max_so_far (init_carry batch query_chunk_size num_heads dim_per_head))
       batch query_chunk_size num_heads 1"
    by (simp_all add: init_carry_def has_shape4_tab4)
  have entries:
    "\<forall>i j k. i < batch \<and> j < query_chunk_size \<and> k < num_heads \<longrightarrow>
      (\<forall>l < dim_per_head.
         numerator (init_carry batch query_chunk_size num_heads dim_per_head) ! i ! j ! k ! l = Fin 0 \<and>
         denominator (init_carry batch query_chunk_size num_heads dim_per_head) ! i ! j ! k ! l = Fin 0) \<and>
      max_so_far (init_carry batch query_chunk_size num_heads dim_per_head) ! i ! j ! k ! 0 = NegInf"
    by (simp add: init_carry_def tab4_nth)
  have start:
    "query_chunk_attention causal A chunk_bias_fn batch query_chunk_size num_heads dim_per_head
       key value (query_chunk, query_chunk_idx) =
     (if length value \<noteq> length key then Inl ValueError
      else case scan (skip_upper_half causal A chunk_bias_fn query_chunk query_chunk_idx)
             (init_carry batch query_chunk_size num_heads dim_per_head)
             (zip key (zip value [0..<length key])) of
        Inl e \<Rightarrow> Inl e
      | Inr (carry, _) \<Rightarrow> Inr (broadcast4 (f_div A) (numerator carry) (denominator carry)))"
    by (simp add: query_chunk_attention_def)
  show ?thesis
    using shapes entries start
      scan_unit_carry [of "query_chunk_attention causal A chunk_bias_fn batch query_chunk_size
        num_heads dim_per_head key value" xs res]
    by blast
qed

theorem init_carry_data_model_witness:
  "has_shape4 (denominator (init_carry 1 1 1 2)) 1 1 1 2 \<and>
   numerator (init_carry 1 1 1 2) ! 0 ! 0 ! 0 ! 1 = Fin 0 \<and>
   denominator (init_carry 1 1 1 2) ! 0 ! 0 ! 0 ! 1 = Fin 0 \<and>
   max_so_far (init_carry 1 1 1 2) ! 0 ! 0 ! 0 ! 0 = NegInf"
  using init_carry_data_model [of 1 1 1 2 False exact_arith "\<lambda>_ _. Inr [[[[Fin 0]]]]" "[]" "[]"
          "[]" 0 "[]" "[]"]
  by simp

text \<open>
  The claim as the specification words it gives the denominator the shape
  (batch, query chunk size, heads, 1); with a head dimension of 2 the code's initial
  denominator does not have it.
\<close>

theorem init_carry_denominator_shape_counterexample:
  "\<not> has_shape4 (denominator (init_carry 1 1 1 2)) 1 1 1 1"
  by (simp add: init_carry_def tab4_def has_shape4_def upt_evals)

section \<open>Chunk invariance of the blockwise feed-forward\<close>

lemma scan_pure_unit:
  "scan (\<lambda>carry x. Inr ((), g x)) () xs = Inr ((), map g xs)"
  by (induction xs) simp_all

lemma strided_index_less:
  assumes "ci < c" and "ni < n"
  shows "ci * n + ni < c * (n::nat)"
proof -
  have "ci * n + ni < Suc ci * n"
    using assms(2) by simp
  also have "\<dots> \<le> c * n"
    using assms(1) by (intro mult_le_mono1) simp
  finally show ?thesis .
qed

lemma concat_strided_blocks:
  "length xs = c * n \<Longrightarrow>
   concat (map (\<lambda>ci. map (\<lambda>ni. xs ! (ci * n + ni)) [0..<n]) [0..<c]) = xs"
proof (induction c arbitrary: xs)
  case 0
  then show ?case by simp
next
  case (Suc c)
  let ?ys = "take (c * n) xs"
  have len: "length ?ys = c * n"
    using Suc.prems by simp
  have front: "map (\<lambda>ci. map (\<lambda>ni. xs ! (ci * n + ni)) [0..<n]) [0..<c] =
               map (\<lambda>ci. map (\<lambda>ni. ?ys ! (ci * n + ni)) [0..<n]) [0..<c]"
  proof (rule map_cong [OF refl], rule map_cong [OF refl])
    fix ci ni
    assume "ci \<in> set [0..<c]" "ni \<in> set [0..<n]"
    then have "ci * n + ni < c * n"
      by (simp add: strided_index_less)
    then show "xs ! (ci * n + ni) = ?ys ! (ci * n + ni)"
      by simp
  qed
  have last_block: "map (\<lambda>ni. xs ! (c * n + ni)) [0..<n] = drop (c * n) xs"
    using Suc.prems by (intro nth_equalityI) simp_all
  have "concat (map (\<lambda>ci. map (\<lambda>ni. xs ! (ci * n + ni)) [0..<n]) [0..<Suc c]) =
        concat (map (\<lambda>ci. map (\<lambda>ni. xs ! (ci * n + ni)) [0..<n]) [0..<c]) @
        map (\<lambda>ni. xs ! (c * n + ni)) [0..<n]"
    by simp
  also have "\<dots> = concat (map (\<lambda>ci. map (\<lambda>ni. ?ys ! (ci * n + ni)) [0..<n]) [0..<c]) @
        drop (c * n) xs"
    by (simp only: front last_block)
  also have "\<dots> = ?ys @ drop (c * n) xs"
    by (simp only: Suc.IH [OF len])
  finally show ?case by simp
qed

lemma rearrange_ffn_split_dims:
  assumes "0 < c" and "inputs \<noteq> []" and "dim1 inputs mod c = 0"
  shows "rearrange_ffn_split c inputs =
           Inr (map (\<lambda>row. map (\<lambda>ci. map (\<lambda>ni. row ! (ci * (dim1 inputs div c) + ni))
                  [0..<dim1 inputs div c]) [0..<c]) inputs)"
    and "dim0 (map (\<lambda>row. map (\<lambda>ci. map (\<lambda>ni. row ! (ci * (dim1 inputs div c) + ni))
                  [0..<dim1 inputs div c]) [0..<c]) inputs) = length inputs"
    and "dim1 (map (\<lambda>row. map (\<lambda>ci. map (\<lambda>ni. row ! (ci * (dim1 inputs div c) + ni))
                  [0..<dim1 inputs div c]) [0..<c]) inputs) = c"
    and "dim2 (map (\<lambda>row. map (\<lambda>ci. map (\<lambda>ni. row ! (ci * (dim1 inputs div c) + ni))
                  [0..<dim1 inputs div c]) [0..<c]) inputs) = dim1 inputs div c"
  using assms
  by (cases inputs; simp add: rearrange_ffn_split_def dim0_def dim1_def dim2_def Let_def upt_conv_Cons)+

text \<open>What the feed-forward pipeline computes after the split, for a per-position transform.\<close>

lemma ffn_reassemble:
  assumes c: "0 < c" and rect: "list_all (\<lambda>row. length row = c * n) inputs"
  shows "map concat (stack_axis2 (length inputs) c
           (map (\<lambda>ni. map (map f) (slice_axis2
              (map (\<lambda>row. map (\<lambda>ci. map (\<lambda>ni. row ! (ci * n + ni)) [0..<n]) [0..<c]) inputs) ni))
              [0..<n])) = map (map f) inputs"
proof (rule nth_equalityI)
  show "length (map concat (stack_axis2 (length inputs) c
           (map (\<lambda>ni. map (map f) (slice_axis2
              (map (\<lambda>row. map (\<lambda>ci. map (\<lambda>ni. row ! (ci * n + ni)) [0..<n]) [0..<c]) inputs) ni))
              [0..<n]))) = length (map (map f) inputs)"
    by (simp add: stack_axis2_def)
next
  fix bi
  assume "bi < length (map concat (stack_axis2 (length inputs) c
           (map (\<lambda>ni. map (map f) (slice_axis2
              (map (\<lambda>row. map (\<lambda>ci. map (\<lambda>ni. row ! (ci * n + ni)) [0..<n]) [0..<c]) inputs) ni))
              [0..<n])))"
  then have bi: "bi < length inputs"
    by (simp add: stack_axis2_def)
  then have len: "length (inputs ! bi) = c * n"
    using rect by (simp add: list_all_length)
  have "map concat (stack_axis2 (length inputs) c
           (map (\<lambda>ni. map (map f) (slice_axis2
              (map (\<lambda>row. map (\<lambda>ci. map (\<lambda>ni. row ! (ci * n + ni)) [0..<n]) [0..<c]) inputs) ni))
              [0..<n])) ! bi =
        concat (map (\<lambda>ci. map (\<lambda>ni. f (inputs ! bi ! (ci * n + ni))) [0..<n]) [0..<c])"
    using bi unfolding stack_axis2_def
    by (simp add: o_def) (intro arg_cong [where f = concat] map_cong refl, simp add: slice_axis2_def)
  also have "\<dots> = map f (concat (map (\<lambda>ci. map (\<lambda>ni. inputs ! bi ! (ci * n + ni)) [0..<n]) [0..<c]))"
    by (simp add: map_concat o_def)
  also have "\<dots> = map f (inputs ! bi)"
    using concat_strided_blocks [OF len] by simp
  finally show "map concat (stack_axis2 (length inputs) c
           (map (\<lambda>ni. map (map f) (slice_axis2
              (map (\<lambda>row. map (\<lambda>ci. map (\<lambda>ni. row ! (ci * n + ni)) [0..<n]) [0..<c]) inputs) ni))
              [0..<n])) ! bi = map (map f) inputs ! bi"
    using bi by simp
qed

lemma map_of_visited:
  "set order = {0..<n} \<Longrightarrow>
   map (\<lambda>ni. case map_of (map (\<lambda>k. (k, g k)) order) ni of Some y \<Rightarrow> y | None \<Rightarrow> d) [0..<n] =
   map g [0..<n]"
  by (rule map_cong [OF refl]) (simp add: map_of_map_restrict)

lemma blockwise_ffn_in_order_ascending:
  assumes "rearrange_ffn_split chunk_size inputs = Inr split"
  shows "blockwise_ffn_in_order [0..<dim2 split] forward_ffn inputs chunk_size deterministic =
         blockwise_ffn forward_ffn inputs chunk_size deterministic"
proof -
  have visited:
    "map (\<lambda>ni. case map_of (map (\<lambda>k. (k, forward_ffn (slice_axis2 split k) deterministic))
                   [0..<dim2 split]) ni of Some y \<Rightarrow> y | None \<Rightarrow> []) [0..<dim2 split] =
     map (\<lambda>ni. forward_ffn (slice_axis2 split ni) deterministic) [0..<dim2 split]"
    by (rule map_of_visited) simp
  show ?thesis
    using assms
    by (simp add: blockwise_ffn_in_order_def blockwise_ffn_def scan_pure_unit o_def visited)
qed

text \<open>
  Claim C9. Let \<^verbatim>\<open>forward_ffn\<close> be a deterministic stateless per-position transform: it
  applies one function \<^verbatim>\<open>f\<close> to every position of the block it is given. For every
  rectangular input and every chunk size that divides the sequence length,
  \<^verbatim>\<open>blockwise_ffn\<close> returns what the transform returns on the whole sequence, and so does
  the computation that visits the blocks in any other order.
\<close>

theorem blockwise_ffn_chunk_invariance:
  assumes per_position: "\<forall>h. forward_ffn h deterministic = map (map f) h"
    and c: "0 < chunk_size"
    and rect: "list_all (\<lambda>row. length row = s) inputs"
    and dvd: "s mod chunk_size = 0"
  shows "blockwise_ffn forward_ffn inputs chunk_size deterministic =
           Inr (forward_ffn inputs deterministic) \<and>
         (\<forall>order. set order = {0..<s div chunk_size} \<longrightarrow>
            blockwise_ffn_in_order order forward_ffn inputs chunk_size deterministic =
              Inr (forward_ffn inputs deterministic))"
proof (cases "inputs = []")
  case True
  then show ?thesis
    using per_position c
    by (simp add: blockwise_ffn_def blockwise_ffn_in_order_def rearrange_ffn_split_def
        dim0_def dim1_def dim2_def stack_axis2_def scan_pure_unit)
next
  case False
  define n where "n = s div chunk_size"
  have s: "s = chunk_size * n"
    using div_mult_mod_eq [of s chunk_size] dvd by (simp add: n_def mult.commute)
  have d1: "dim1 inputs = s"
    using False rect by (cases inputs) (simp_all add: dim1_def)
  have rect': "list_all (\<lambda>row. length row = chunk_size * n) inputs"
    using rect s by simp
  define split where
    "split = map (\<lambda>row. map (\<lambda>ci. map (\<lambda>ni. row ! (ci * n + ni)) [0..<n]) [0..<chunk_size]) inputs"
  have split: "rearrange_ffn_split chunk_size inputs = Inr split"
    and dims: "dim0 split = length inputs" "dim1 split = chunk_size" "dim2 split = n"
    using rearrange_ffn_split_dims [OF c False] d1 dvd by (simp_all add: split_def n_def)
  have whole: "map concat (stack_axis2 (length inputs) chunk_size
                 (map (\<lambda>ni. map (map f) (slice_axis2 split ni)) [0..<n])) = map (map f) inputs"
    unfolding split_def by (rule ffn_reassemble [OF c rect'])
  have source: "blockwise_ffn forward_ffn inputs chunk_size deterministic =
                  Inr (forward_ffn inputs deterministic)"
    using per_position whole
    by (simp add: blockwise_ffn_def split dims scan_pure_unit o_def)
  have any_order: "blockwise_ffn_in_order order forward_ffn inputs chunk_size deterministic =
                     Inr (forward_ffn inputs deterministic)"
    if "set order = {0..<n}" for order
  proof -
    have visited:
      "map (\<lambda>ni. case map_of (map (\<lambda>k. (k, map (map f) (slice_axis2 split k))) order) ni of
                   Some y \<Rightarrow> y | None \<Rightarrow> []) [0..<n] =
       map (\<lambda>ni. map (map f) (slice_axis2 split ni)) [0..<n]"
      by (rule map_of_visited [OF that])
    show ?thesis
      using per_position whole
      by (simp add: blockwise_ffn_in_order_def split dims scan_pure_unit o_def visited)
  qed
  show ?thesis
    using source any_order by (simp add: n_def)
qed

theorem blockwise_ffn_chunk_invariance_witness:
  "blockwise_ffn (\<lambda>h _. map (map (\<lambda>x. x + 1)) h) [[1, 2, 3, 4 :: int]] 2 True = Inr [[2, 3, 4, 5]] \<and>
   blockwise_ffn_in_order [1, 0] (\<lambda>h _. map (map (\<lambda>x. x + 1)) h) [[1, 2, 3, 4 :: int]] 2 True
     = Inr [[2, 3, 4, 5]]"
proof -
  have per_position:
    "\<forall>h. (\<lambda>h _. map (map (\<lambda>x. x + 1)) h) h True = map (map (\<lambda>x :: int. x + 1)) h"
    by simp
  have rect: "list_all (\<lambda>row. length row = 4) [[1, 2, 3, 4 :: int]]"
    by simp
  have order: "set [1, 0] = {0..<4 div (2 :: nat)}"
    by auto
  show ?thesis
    using blockwise_ffn_chunk_invariance [OF per_position _ rect, of 2] order by simp
qed

section \<open>Chunked attention against the unchunked reference\<close>

lemma max_finfo_min: "max 0 (finfo_min d) = 0" "max (finfo_min d) 0 = 0"
  using finfo_min_neg [of d] by (simp_all add: max_def del: finfo_min.simps)

lemma exp_sums_nonzero:
  "1 + exp x \<noteq> (0::real)" "3 + exp x \<noteq> (0::real)" "1 + 3 * exp x \<noteq> (0::real)"
  "3 * exp x + 1 \<noteq> (0::real)"
  using exp_gt_zero [of x] by linarith+

lemma broadcast2_1_4: "broadcast2 f [x] [y1, y2, y3, y4] = [f x y1, f x y2, f x y3, f x y4]"
  by (simp add: broadcast2_def bdim_def bidx_def upt_0_4)

lemma broadcast2_4_1: "broadcast2 f [x1, x2, x3, x4] [y] = [f x1 y, f x2 y, f x3 y, f x4 y]"
  by (simp add: broadcast2_def bdim_def bidx_def upt_0_4)

lemma broadcast2_4_4:
  "broadcast2 f [x1, x2, x3, x4] [y1, y2, y3, y4] = [f x1 y1, f x2 y2, f x3 y3, f x4 y4]"
  by (simp add: broadcast2_def bdim_def bidx_def upt_0_4)

lemmas attn_eval = blockwise_attn_def rearrange_split_def rearrange_merge_def
  dim0_def dim1_def dim2_def dim3_def bias_dims_ok_def query_chunk_attention_def
  skip_upper_half_def skip_block_def summarize_chunk_def attn_scores_def
  chunk_attention_bias_def dynamic_slice_tile_def dynamic_slice1_def broadcast4_def
  broadcast2_evals broadcast2_1_4 broadcast2_4_1 broadcast2_4_4
  einsum_bqhd_bkhd_def einsum_bqhv_bvhf_def moveaxis_1_2_def max_keepdims_def
  sum_keepdims_def init_carry_def tab4_def
  causal_mask_value_def Let_def upt_evals max_finfo_min

lemmas exact_eval = exact_arith_def exp_sums_nonzero

lemmas reference_eval = attention_reference_def reference_scores_def tab4_def
  dim0_def dim1_def dim2_def dim3_def bidx_def Let_def upt_evals

lemma exp_1_fraction: "1 / (1 + 3 * exp (- 1)) = exp 1 / (exp 1 + (3::real))"
  by (simp add: exp_minus field_simps)

lemma quarter_neq_exp_fraction: "(1::real) / 4 \<noteq> exp 1 / (exp 1 + 3)"
proof -
  have "exp (1::real) > 1" by simp
  then show ?thesis by (simp add: field_simps)
qed

lemma exp_fraction_far_from_quarter: "1 / 10 < exp 1 / (exp 1 + 3) - 1 / (4::real)"
proof -
  have "(2::real) \<le> exp 1"
    using exp_ge_add_one_self [of "1::real"] by simp
  then show ?thesis by (simp add: field_simps)
qed

lemma blockwise_attn_chunked_example:
  assumes "arith_basic A"
  shows "\<exists>x. blockwise_attn A [[[[Fin 0]], [[Fin 1]], [[Fin 0]], [[Fin 0]]]]
           [[[[Fin 1]], [[Fin 0]], [[Fin 0]], [[Fin 0]]]] [[[[Fin 1]], [[Fin 0]], [[Fin 0]], [[Fin 0]]]]
           (Some [[[[Fin 0]]]]) True dropout_rng 0 False 2 2 Float32 False
         = Inr [[[[Fin (1 / 4)]], [[Fin (1 / 4)]], [[x]], [[Fin (1 / 4)]]]]"
  using assms unfolding arith_basic_def
  by (simp add: attn_eval del: finfo_min.simps)

lemma attention_reference_example:
  "attention_reference [[[[0]], [[1]], [[0]], [[0]]]] [[[[1]], [[0]], [[0]], [[0]]]]
     [[[[1]], [[0]], [[0]], [[0]]]] [[[[0]]]] False Float32
   = [[[[1 / 4]], [[exp 1 / (exp 1 + 3)]], [[1 / 4]], [[1 / 4]]]]"
  by (simp add: reference_eval del: finfo_min.simps)

text \<open>
  Claim C1. The claim says that the chunked output equals the unchunked reference for all
  chunk sizes that divide the sequence lengths. Take one batch entry, one head, head
  dimension 1, sequence length 4, queries \<^verbatim>\<open>[0, 1, 0, 0]\<close>, keys and values
  \<^verbatim>\<open>[1, 0, 0, 0]\<close>, a zero bias, no causal mask and no dropout. Only the query at
  position 1 weighs the keys unevenly, so the reference output differs from 1/4 at position
  1 only, where it is \<^verbatim>\<open>e / (e + 3)\<close>, more than 1/10 away from 1/4. With chunk sizes 2
  the code returns 1/4 at the positions 0, 1 and 3 in every arithmetic that has the basic
  facts: the chunks are taken with stride 2 (positions 0 and 2, then 1 and 3) and their
  outputs are written back contiguously, so the output of the query at position 1 lands at
  position 2.
\<close>

theorem blockwise_attn_chunks_permute_output:
  assumes "arith_basic A"
  shows "\<exists>out. blockwise_attn A [[[[Fin 0]], [[Fin 1]], [[Fin 0]], [[Fin 0]]]]
           [[[[Fin 1]], [[Fin 0]], [[Fin 0]], [[Fin 0]]]] [[[[Fin 1]], [[Fin 0]], [[Fin 0]], [[Fin 0]]]]
           (Some [[[[Fin 0]]]]) True dropout_rng 0 False 2 2 Float32 False = Inr out \<and>
         has_shape4 out 1 4 1 1 \<and>
         out ! 0 ! 0 ! 0 ! 0 = Fin (1 / 4) \<and> out ! 0 ! 1 ! 0 ! 0 = Fin (1 / 4) \<and>
         out ! 0 ! 3 ! 0 ! 0 = Fin (1 / 4) \<and>
         attention_reference [[[[0]], [[1]], [[0]], [[0]]]] [[[[1]], [[0]], [[0]], [[0]]]]
           [[[[1]], [[0]], [[0]], [[0]]]] [[[[0]]]] False Float32
           = [[[[1 / 4]], [[exp 1 / (exp 1 + 3)]], [[1 / 4]], [[1 / 4]]]] \<and>
         1 / 10 < exp 1 / (exp 1 + 3) - 1 / (4::real)"
proof -
  obtain x where
    "blockwise_attn A [[[[Fin 0]], [[Fin 1]], [[Fin 0]], [[Fin 0]]]]
       [[[[Fin 1]], [[Fin 0]], [[Fin 0]], [[Fin 0]]]] [[[[Fin 1]], [[Fin 0]], [[Fin 0]], [[Fin 0]]]]
       (Some [[[[Fin 0]]]]) True dropout_rng 0 False 2 2 Float32 False
     = Inr [[[[Fin (1 / 4)]], [[Fin (1 / 4)]], [[x]], [[Fin (1 / 4)]]]]"
    using blockwise_attn_chunked_example [OF assms] by blast
  then show ?thesis
    using attention_reference_example exp_fraction_far_from_quarter
    by (simp add: has_shape4_def)
qed

text \<open>
  In the arithmetic without rounding the code returns, with chunk sizes 2, the reference
  value of position 1 at position 2, and with chunk size 4 the reference itself.
\<close>

theorem blockwise_attn_chunks_permute_output_witness:
  "blockwise_attn exact_arith [[[[Fin 0]], [[Fin 1]], [[Fin 0]], [[Fin 0]]]]
     [[[[Fin 1]], [[Fin 0]], [[Fin 0]], [[Fin 0]]]] [[[[Fin 1]], [[Fin 0]], [[Fin 0]], [[Fin 0]]]]
     (Some [[[[Fin 0]]]]) True (\<lambda>_ _ _ _. False) 0 False 2 2 Float32 False
     = Inr [[[[Fin (1 / 4)]], [[Fin (1 / 4)]], [[Fin (exp 1 / (exp 1 + 3))]], [[Fin (1 / 4)]]]] \<and>
   attention_reference [[[[0]], [[1]], [[0]], [[0]]]] [[[[1]], [[0]], [[0]], [[0]]]]
     [[[[1]], [[0]], [[0]], [[0]]]] [[[[0]]]] False Float32
     = [[[[1 / 4]], [[exp 1 / (exp 1 + 3)]], [[1 / 4]], [[1 / 4]]]] \<and>
   blockwise_attn exact_arith [[[[Fin 0]], [[Fin 1]], [[Fin 0]], [[Fin 0]]]]
     [[[[Fin 1]], [[Fin 0]], [[Fin 0]], [[Fin 0]]]] [[[[Fin 1]], [[Fin 0]], [[Fin 0]], [[Fin 0]]]]
     (Some [[[[Fin 0]]]]) True (\<lambda>_ _ _ _. False) 0 False 4 4 Float32 False
     = Inr (map (map (map (map Fin)))
              (attention_reference [[[[0]], [[1]], [[0]], [[0]]]] [[[[1]], [[0]], [[0]], [[0]]]]
                 [[[[1]], [[0]], [[0]], [[0]]]] [[[[0]]]] False Float32)) \<and>
   blockwise_attn exact_arith [[[[Fin 0]], [[Fin 1]], [[Fin 0]], [[Fin 0]]]]
     [[[[Fin 1]], [[Fin 0]], [[Fin 0]], [[Fin 0]]]] [[[[Fin 1]], [[Fin 0]], [[Fin 0]], [[Fin 0]]]]
     (Some [[[[Fin 0]]]]) True (\<lambda>_ _ _ _. False) 0 False 2 2 Float32 False
     \<noteq> Inr (map (map (map (map Fin)))
              (attention_reference [[[[0]], [[1]], [[0]], [[0]]]] [[[[1]], [[0]], [[0]], [[0]]]]
                 [[[[1]], [[0]], [[0]], [[0]]]] [[[[0]]]] False Float32))"
proof -
  have chunked:
    "blockwise_attn exact_arith [[[[Fin 0]], [[Fin 1]], [[Fin 0]], [[Fin 0]]]]
       [[[[Fin 1]], [[Fin 0]], [[Fin 0]], [[Fin 0]]]] [[[[Fin 1]], [[Fin 0]], [[Fin 0]], [[Fin 0]]]]
       (Some [[[[Fin 0]]]]) True (\<lambda>_ _ _ _. False) 0 False 2 2 Float32 False
     = Inr [[[[Fin (1 / 4)]], [[Fin (1 / 4)]], [[Fin (exp 1 / (exp 1 + 3))]], [[Fin (1 / 4)]]]]"
    by (simp add: attn_eval exact_eval exp_1_fraction [symmetric] add.commute del: finfo_min.simps)
  have whole:
    "blockwise_attn exact_arith [[[[Fin 0]], [[Fin 1]], [[Fin 0]], [[Fin 0]]]]
       [[[[Fin 1]], [[Fin 0]], [[Fin 0]], [[Fin 0]]]] [[[[Fin 1]], [[Fin 0]], [[Fin 0]], [[Fin 0]]]]
       (Some [[[[Fin 0]]]]) True (\<lambda>_ _ _ _. False) 0 False 4 4 Float32 False
     = Inr [[[[Fin (1 / 4)]], [[Fin (exp 1 / (exp 1 + 3))]], [[Fin (1 / 4)]], [[Fin (1 / 4)]]]]"
    by (simp add: attn_eval exact_eval exp_1_fraction [symmetric] del: finfo_min.simps)
  show ?thesis
    using blockwise_attn_chunks_permute_output [OF arith_basic_exact, of "\<lambda>_ _ _ _. False"]
    unfolding chunked whole attention_reference_example using quarter_neq_exp_fraction by simp
qed

lemma blockwise_attn_causal_example:
  assumes "arith_basic A"
  shows "\<exists>x0 x2. blockwise_attn A [[[[Fin 0]], [[Fin 0]], [[Fin 0]], [[Fin 0]]]]
           [[[[Fin 0]], [[Fin 0]], [[Fin 0]], [[Fin 0]]]] [[[[Fin 0]], [[Fin 0]], [[Fin 0]], [[Fin 0]]]]
           (Some [[[[Fin 0]]]]) True dropout_rng 0 True 2 2 Float32 False
         = Inr [[[[x0]], [[Fin 0]], [[x2]], [[Fin 0]]]]"
    and "\<exists>x0 x2. blockwise_attn A [[[[Fin 0]], [[Fin 0]], [[Fin 0]], [[Fin 0]]]]
           [[[[Fin 0]], [[Fin 0]], [[Fin 0]], [[Fin 0]]]] [[[[Fin 0]], [[Fin 0]], [[Fin 1]], [[Fin 0]]]]
           (Some [[[[Fin 0]]]]) True dropout_rng 0 True 2 2 Float32 False
         = Inr [[[[x0]], [[Fin (1 / 2)]], [[x2]], [[Fin (1 / 4)]]]]"
  using assms unfolding arith_basic_def
  by (simp_all add: attn_eval del: finfo_min.simps)

lemma blockwise_attn_causal_exact_example:
  "blockwise_attn exact_arith [[[[Fin 0]], [[Fin 0]], [[Fin 0]], [[Fin 0]]]]
     [[[[Fin 0]], [[Fin 0]], [[Fin 0]], [[Fin 0]]]] [[[[Fin a]], [[Fin b]], [[Fin c]], [[Fin d]]]]
     (Some [[[[Fin 0]]]]) True dropout_rng 0 True 2 2 Float32 False
   = Inr [[[[Fin ((a + exp (finfo_min Float32) * c) / (1 + exp (finfo_min Float32)))]],
           [[Fin ((a + c) / 2)]],
           [[Fin ((a + c + (b + exp (finfo_min Float32) * d)) / (3 + exp (finfo_min Float32)))]],
           [[Fin ((a + c + (b + d)) / 4)]]]]"
  by (simp add: attn_eval exact_eval del: finfo_min.simps)

text \<open>
  Claim C3. The claim says that under causal attention a change of the key or value at
  position \<^verbatim>\<open>j\<close> leaves the outputs at all positions \<^verbatim>\<open>i < j\<close> unchanged. Take sequence
  length 4, chunk sizes 2, zero queries and keys, a zero bias, and two value tensors that
  differ at position 2 only. The code's output at position 1 is the mean of the values at
  positions 0 and 2, so it changes from 0 to 1/2, in every arithmetic that has the basic
  facts.
\<close>

theorem blockwise_attn_causal_output_reads_later_value:
  assumes "arith_basic A"
  shows "\<exists>out out'.
           blockwise_attn A [[[[Fin 0]], [[Fin 0]], [[Fin 0]], [[Fin 0]]]]
             [[[[Fin 0]], [[Fin 0]], [[Fin 0]], [[Fin 0]]]] [[[[Fin 0]], [[Fin 0]], [[Fin 0]], [[Fin 0]]]]
             (Some [[[[Fin 0]]]]) True dropout_rng 0 True 2 2 Float32 False = Inr out \<and>
           blockwise_attn A [[[[Fin 0]], [[Fin 0]], [[Fin 0]], [[Fin 0]]]]
             [[[[Fin 0]], [[Fin 0]], [[Fin 0]], [[Fin 0]]]] [[[[Fin 0]], [[Fin 0]], [[Fin 1]], [[Fin 0]]]]
             (Some [[[[Fin 0]]]]) True dropout_rng 0 True 2 2 Float32 False = Inr out' \<and>
           has_shape4 out 1 4 1 1 \<and> has_shape4 out' 1 4 1 1 \<and>
           out ! 0 ! 1 ! 0 ! 0 = Fin 0 \<and> out' ! 0 ! 1 ! 0 ! 0 = Fin (1 / 2) \<and>
           out ! 0 ! 1 ! 0 ! 0 \<noteq> out' ! 0 ! 1 ! 0 ! 0"
proof -
  obtain x0 x2 where
    out: "blockwise_attn A [[[[Fin 0]], [[Fin 0]], [[Fin 0]], [[Fin 0]]]]
       [[[[Fin 0]], [[Fin 0]], [[Fin 0]], [[Fin 0]]]] [[[[Fin 0]], [[Fin 0]], [[Fin 0]], [[Fin 0]]]]
       (Some [[[[Fin 0]]]]) True dropout_rng 0 True 2 2 Float32 False
     = Inr [[[[x0]], [[Fin 0]], [[x2]], [[Fin 0]]]]"
    using blockwise_attn_causal_example(1) [OF assms] by blast
  obtain y0 y2 where
    out': "blockwise_attn A [[[[Fin 0]], [[Fin 0]], [[Fin 0]], [[Fin 0]]]]
       [[[[Fin 0]], [[Fin 0]], [[Fin 0]], [[Fin 0]]]] [[[[Fin 0]], [[Fin 0]], [[Fin 1]], [[Fin 0]]]]
       (Some [[[[Fin 0]]]]) True dropout_rng 0 True 2 2 Float32 False
     = Inr [[[[y0]], [[Fin (1 / 2)]], [[y2]], [[Fin (1 / 4)]]]]"
    using blockwise_attn_causal_example(2) [OF assms] by blast
  show ?thesis
    unfolding out out' by (simp add: has_shape4_def)
qed

text \<open>
  In the arithmetic without rounding all entries of the two outputs are these.
\<close>

theorem blockwise_attn_causal_output_reads_later_value_witness:
  "blockwise_attn exact_arith [[[[Fin 0]], [[Fin 0]], [[Fin 0]], [[Fin 0]]]]
     [[[[Fin 0]], [[Fin 0]], [[Fin 0]], [[Fin 0]]]] [[[[Fin 0]], [[Fin 0]], [[Fin 0]], [[Fin 0]]]]
     (Some [[[[Fin 0]]]]) True (\<lambda>_ _ _ _. False) 0 True 2 2 Float32 False
     = Inr [[[[Fin 0]], [[Fin 0]], [[Fin 0]], [[Fin 0]]]] \<and>
   blockwise_attn exact_arith [[[[Fin 0]], [[Fin 0]], [[Fin 0]], [[Fin 0]]]]
     [[[[Fin 0]], [[Fin 0]], [[Fin 0]], [[Fin 0]]]] [[[[Fin 0]], [[Fin 0]], [[Fin 1]], [[Fin 0]]]]
     (Some [[[[Fin 0]]]]) True (\<lambda>_ _ _ _. False) 0 True 2 2 Float32 False
     = Inr [[[[Fin (exp (finfo_min Float32) / (1 + exp (finfo_min Float32)))]],
             [[Fin (1 / 2)]],
             [[Fin (1 / (3 + exp (finfo_min Float32)))]],
             [[Fin (1 / 4)]]]]"
  using blockwise_attn_causal_output_reads_later_value [OF arith_basic_exact, of "\<lambda>_ _ _ _. False"]
    blockwise_attn_causal_exact_example [of 0 0 0 0 "\<lambda>_ _ _ _. False"]
    blockwise_attn_causal_exact_example [of 0 0 1 0 "\<lambda>_ _ _ _. False"]
  by (simp del: finfo_min.simps)

section \<open>Entries and shapes of the tensor operations\<close>

lemma has_shape4_I:
  assumes "length t = n0"
    and "\<And>i. i < n0 \<Longrightarrow> length (t ! i) = n1"
    and "\<And>i j. i < n0 \<Longrightarrow> j < n1 \<Longrightarrow> length (t ! i ! j) = n2"
    and "\<And>i j k. i < n0 \<Longrightarrow> j < n1 \<Longrightarrow> k < n2 \<Longrightarrow> length (t ! i ! j ! k) = n3"
  shows "has_shape4 t n0 n1 n2 n3"
  using assms by (auto simp: has_shape4_def list_all_length)

lemma bidx_self: "i < n \<Longrightarrow> bidx n i = i"
  by (auto simp: bidx_def)

lemma broadcast2_length: "length (broadcast2 f xs ys) = bdim (length xs) (length ys)"
  by (simp add: broadcast2_def)

lemma broadcast2_nth:
  "i < bdim (length xs) (length ys) \<Longrightarrow>
   broadcast2 f xs ys ! i = f (xs ! bidx (length xs) i) (ys ! bidx (length ys) i)"
  by (simp add: broadcast2_def)

lemma bdim_full: "m = 1 \<or> m = n \<Longrightarrow> c = 1 \<or> c = n \<Longrightarrow> m = n \<or> c = n \<Longrightarrow> bdim m c = n"
  by (auto simp: bdim_def)

text \<open>
  Broadcasting two operands whose axes have length 1 or the full length, one of them the
  full length at every axis: the shape of the result and its entries.
\<close>

lemma broadcast4_nth:
  assumes x: "has_shape4 x a0 a1 a2 a3" and y: "has_shape4 y c0 c1 c2 c3"
    and cx: "a0 = 1 \<or> a0 = n0" "a1 = 1 \<or> a1 = n1" "a2 = 1 \<or> a2 = n2" "a3 = 1 \<or> a3 = n3"
    and cy: "c0 = 1 \<or> c0 = n0" "c1 = 1 \<or> c1 = n1" "c2 = 1 \<or> c2 = n2" "c3 = 1 \<or> c3 = n3"
    and full: "a0 = n0 \<or> c0 = n0" "a1 = n1 \<or> c1 = n1" "a2 = n2 \<or> c2 = n2" "a3 = n3 \<or> c3 = n3"
  shows "has_shape4 (broadcast4 f x y) n0 n1 n2 n3"
    and "i < n0 \<Longrightarrow> j < n1 \<Longrightarrow> k < n2 \<Longrightarrow> l < n3 \<Longrightarrow>
         broadcast4 f x y ! i ! j ! k ! l =
         f (x ! bidx a0 i ! bidx a1 j ! bidx a2 k ! bidx a3 l)
           (y ! bidx c0 i ! bidx c1 j ! bidx c2 k ! bidx c3 l)"
proof -
  note xs = has_shape4_nth [OF x] and ys = has_shape4_nth [OF y]
  note d0 = bdim_full [OF cx(1) cy(1) full(1)] and d1 = bdim_full [OF cx(2) cy(2) full(2)]
    and d2 = bdim_full [OF cx(3) cy(3) full(3)] and d3 = bdim_full [OF cx(4) cy(4) full(4)]
  have a0: "bidx a0 i < a0" and c0: "bidx c0 i < c0" if "i < n0" for i
    using that cx(1) cy(1) by (auto simp: bidx_def)
  have a1: "bidx a1 j < a1" and c1: "bidx c1 j < c1" if "j < n1" for j
    using that cx(2) cy(2) by (auto simp: bidx_def)
  have a2: "bidx a2 k < a2" and c2: "bidx c2 k < c2" if "k < n2" for k
    using that cx(3) cy(3) by (auto simp: bidx_def)
  have l0: "length (broadcast4 f x y) = n0"
    by (simp add: broadcast4_def broadcast2_length xs ys d0)
  have e0: "broadcast4 f x y ! i =
            broadcast2 (broadcast2 (broadcast2 f)) (x ! bidx a0 i) (y ! bidx c0 i)"
    if "i < n0" for i
    using that by (simp add: broadcast4_def broadcast2_nth xs ys d0)
  have l1: "length (broadcast4 f x y ! i) = n1" if "i < n0" for i
    using a0 [OF that] c0 [OF that] by (simp add: e0 [OF that] broadcast2_length xs ys d1)
  have e1: "broadcast4 f x y ! i ! j =
            broadcast2 (broadcast2 f) (x ! bidx a0 i ! bidx a1 j) (y ! bidx c0 i ! bidx c1 j)"
    if "i < n0" "j < n1" for i j
    using that a0 [OF that(1)] c0 [OF that(1)]
    by (simp add: e0 broadcast2_nth xs ys d1)
  have l2: "length (broadcast4 f x y ! i ! j) = n2" if "i < n0" "j < n1" for i j
    using a0 [OF that(1)] c0 [OF that(1)] a1 [OF that(2)] c1 [OF that(2)]
    by (simp add: e1 [OF that] broadcast2_length xs ys d2)
  have e2: "broadcast4 f x y ! i ! j ! k =
            broadcast2 f (x ! bidx a0 i ! bidx a1 j ! bidx a2 k)
              (y ! bidx c0 i ! bidx c1 j ! bidx c2 k)"
    if "i < n0" "j < n1" "k < n2" for i j k
    using that a0 [OF that(1)] c0 [OF that(1)] a1 [OF that(2)] c1 [OF that(2)]
    by (simp add: e1 broadcast2_nth xs ys d2)
  have l3: "length (broadcast4 f x y ! i ! j ! k) = n3" if "i < n0" "j < n1" "k < n2" for i j k
    using a0 [OF that(1)] c0 [OF that(1)] a1 [OF that(2)] c1 [OF that(2)]
      a2 [OF that(3)] c2 [OF that(3)]
    by (simp add: e2 [OF that] broadcast2_length xs ys d3)
  show "has_shape4 (broadcast4 f x y) n0 n1 n2 n3"
    by (rule has_shape4_I) (simp_all add: l0 l1 l2 l3)
  show "broadcast4 f x y ! i ! j ! k ! l =
         f (x ! bidx a0 i ! bidx a1 j ! bidx a2 k ! bidx a3 l)
           (y ! bidx c0 i ! bidx c1 j ! bidx c2 k ! bidx c3 l)"
    if "i < n0" "j < n1" "k < n2" "l < n3"
    using that a0 [OF that(1)] c0 [OF that(1)] a1 [OF that(2)] c1 [OF that(2)]
      a2 [OF that(3)] c2 [OF that(3)]
    by (simp add: e2 broadcast2_nth xs ys d3)
qed

lemma has_shape4_dims:
  assumes "has_shape4 t n0 n1 n2 n3" and "0 < n0" and "0 < n1"
  shows "dim2 t = n2" and "0 < n2 \<Longrightarrow> dim3 t = n3"
proof -
  obtain x t' where t: "t = x # t'"
    using assms(1,2) by (cases t) (auto simp: has_shape4_def)
  obtain y x' where x: "x = y # x'"
    using assms(1,3) t by (cases x) (auto simp: has_shape4_def)
  show "dim2 t = n2"
    using assms(1) by (simp add: t x dim2_def dim1_def has_shape4_def)
  show "dim3 t = n3" if "0 < n2"
    using assms(1) that by (cases y) (auto simp: t x dim3_def dim2_def dim1_def has_shape4_def)
qed

lemma dynamic_slice1_fit:
  assumes "start + len \<le> length xs"
  shows "dynamic_slice1 start len xs = take len (drop start xs)"
proof -
  have "min start (length xs - len) = start"
    using assms by arith
  then show ?thesis
    by (simp add: dynamic_slice1_def)
qed

lemma dynamic_slice_tile_nth:
  assumes t: "has_shape4 t n0 n1 n2 n3"
    and fit: "qo + qc \<le> n2" "ko + kc \<le> n3"
    and idx: "b < n0" "h < n1" "i < qc" "j < kc"
  shows "has_shape4 (dynamic_slice_tile t qo ko qc kc) n0 n1 qc kc"
    and "dynamic_slice_tile t qo ko qc kc ! b ! h ! i ! j = t ! b ! h ! (qo + i) ! (ko + j)"
proof -
  note ts = has_shape4_nth [OF t]
  have pos: "0 < n0" "0 < n1" "0 < n2"
    using idx fit by simp_all
  have d2: "min (dim2 t) qc = qc" and d3: "min (dim3 t) kc = kc"
    using has_shape4_dims [OF t pos(1,2)] pos(3) fit by simp_all
  have rows: "length (dynamic_slice1 qo qc m) = qc \<and>
              (\<forall>i' < qc. dynamic_slice1 qo qc m ! i' = m ! (qo + i'))"
    if "length m = n2" for m :: "'a list list"
    using that fit(1) by (simp add: dynamic_slice1_fit)
  have cols: "length (dynamic_slice1 ko kc r) = kc \<and>
              (\<forall>j' < kc. dynamic_slice1 ko kc r ! j' = r ! (ko + j'))"
    if "length r = n3" for r :: "'a list"
    using that fit(2) by (simp add: dynamic_slice1_fit)
  show "has_shape4 (dynamic_slice_tile t qo ko qc kc) n0 n1 qc kc"
  proof (rule has_shape4_I)
    show "length (dynamic_slice_tile t qo ko qc kc) = n0"
      by (simp add: dynamic_slice_tile_def ts)
    show "length (dynamic_slice_tile t qo ko qc kc ! b') = n1" if "b' < n0" for b'
      using that by (simp add: dynamic_slice_tile_def ts)
    show "length (dynamic_slice_tile t qo ko qc kc ! b' ! h') = qc" if "b' < n0" "h' < n1" for b' h'
      using that rows [of "t ! b' ! h'"] by (simp add: dynamic_slice_tile_def ts d2 d3)
    show "length (dynamic_slice_tile t qo ko qc kc ! b' ! h' ! i') = kc"
      if "b' < n0" "h' < n1" "i' < qc" for b' h' i'
      using that rows [of "t ! b' ! h'"] cols [of "t ! b' ! h' ! (qo + i')"] fit(1)
      by (simp add: dynamic_slice_tile_def ts d2 d3)
  qed
  show "dynamic_slice_tile t qo ko qc kc ! b ! h ! i ! j = t ! b ! h ! (qo + i) ! (ko + j)"
    using idx rows [of "t ! b ! h"] cols [of "t ! b ! h ! (qo + i)"] fit(1)
    by (simp add: dynamic_slice_tile_def ts d2 d3)
qed

lemma map4_nth:
  assumes "has_shape4 t n0 n1 n2 n3"
  shows "has_shape4 (map (map (map (map g))) t) n0 n1 n2 n3"
    and "i < n0 \<Longrightarrow> j < n1 \<Longrightarrow> k < n2 \<Longrightarrow> l < n3 \<Longrightarrow>
         map (map (map (map g))) t ! i ! j ! k ! l = g (t ! i ! j ! k ! l)"
  using has_shape4_nth [OF assms]
  by (auto intro!: has_shape4_I)

section \<open>The dropout rule of the bias tile\<close>

lemma chunk_attention_bias_deterministic:
  "chunk_attention_bias A qc kc bias True attn_dropout attn_pdrop causal dtype qi ki =
   Inr (let chunk_bias = (case bias of None \<Rightarrow> [[[[Fin 0]]]]
                          | Some b \<Rightarrow> dynamic_slice_tile b (qi * qc) (ki * kc) qc kc)
        in if causal
           then broadcast4 (f_add A) chunk_bias
                  [[causal_mask_value qc kc (int (qi * qc) - int (ki * kc)) dtype]]
           else chunk_bias)"
  by (simp add: chunk_attention_bias_def Let_def)

text \<open>
  Claim C5, as the code has it. When dropout is active (not deterministic, drop probability
  above 0) every entry of the bias tile is the floating-point sum of the entry of the tile
  without dropout and of a second term: the most negative finite value of the working
  precision where the dropout mask flags the position, zero elsewhere. The drop probability
  only opens this branch; the value added is not scaled by it. Where adding zero changes
  nothing, the positions that are not flagged keep their entry, and a flagged position
  whose entry was zero holds the most negative finite value.
\<close>

theorem dropout_adds_unscaled_minimum:
  assumes active: "\<not> deterministic" "0 < attn_pdrop"
    and dropout: "has_shape4 dropout n0 n1 q_len kv_len"
    and fit: "query_chunk_idx * query_chunk_size + query_chunk_size \<le> q_len"
      "key_chunk_idx * key_chunk_size + key_chunk_size \<le> kv_len"
    and base: "chunk_attention_bias A query_chunk_size key_chunk_size bias True (Some dropout)
                 attn_pdrop causal dtype query_chunk_idx key_chunk_idx = Inr base"
    and base_shape: "has_shape4 base b0 b1 b2 b3"
      "b0 = 1 \<or> b0 = n0" "b1 = 1 \<or> b1 = n1"
      "b2 = 1 \<or> b2 = query_chunk_size" "b3 = 1 \<or> b3 = key_chunk_size"
    and idx: "b < n0" "h < n1" "i < query_chunk_size" "j < key_chunk_size"
  shows "\<exists>tile. chunk_attention_bias A query_chunk_size key_chunk_size bias deterministic
                  (Some dropout) attn_pdrop causal dtype query_chunk_idx key_chunk_idx = Inr tile \<and>
           has_shape4 tile n0 n1 query_chunk_size key_chunk_size \<and>
           (let flagged = dropout ! b ! h ! (query_chunk_idx * query_chunk_size + i)
                            ! (key_chunk_idx * key_chunk_size + j);
                before = base ! bidx b0 b ! bidx b1 h ! bidx b2 i ! bidx b3 j
            in tile ! b ! h ! i ! j =
                 f_add A before (if flagged then Fin (finfo_min dtype) else Fin 0) \<and>
               ((\<forall>x. f_add A x (Fin 0) = x) \<and> \<not> flagged \<longrightarrow> tile ! b ! h ! i ! j = before) \<and>
               ((\<forall>x. f_add A (Fin 0) x = x) \<and> flagged \<and> before = Fin 0 \<longrightarrow>
                  tile ! b ! h ! i ! j = Fin (finfo_min dtype)))"
proof -
  let ?slice = "dynamic_slice_tile dropout (query_chunk_idx * query_chunk_size)
                  (key_chunk_idx * key_chunk_size) query_chunk_size key_chunk_size"
  let ?added = "map (map (map (map (\<lambda>flag. if flag then Fin (finfo_min dtype) else Fin 0)))) ?slice"
  have slice: "has_shape4 ?slice n0 n1 query_chunk_size key_chunk_size"
    and slice_nth: "?slice ! b ! h ! i ! j =
      dropout ! b ! h ! (query_chunk_idx * query_chunk_size + i) ! (key_chunk_idx * key_chunk_size + j)"
    using dynamic_slice_tile_nth [OF dropout fit idx] by simp_all
  have added: "has_shape4 ?added n0 n1 query_chunk_size key_chunk_size"
    by (rule map4_nth(1) [OF slice])
  have added_nth: "?added ! b ! h ! i ! j =
      (if ?slice ! b ! h ! i ! j then Fin (finfo_min dtype) else Fin 0)"
    by (rule map4_nth(2) [OF slice idx])
  have tile: "chunk_attention_bias A query_chunk_size key_chunk_size bias deterministic
                (Some dropout) attn_pdrop causal dtype query_chunk_idx key_chunk_idx =
              Inr (broadcast4 (f_add A) base ?added)"
    using active base
    by (simp add: chunk_attention_bias_deterministic) (simp add: chunk_attention_bias_def Let_def)
  have sum: "has_shape4 (broadcast4 (f_add A) base ?added) n0 n1 query_chunk_size key_chunk_size"
    using broadcast4_nth(1) [OF base_shape(1) added base_shape(2-5), where f = "f_add A"] by simp
  have sum_nth: "broadcast4 (f_add A) base ?added ! b ! h ! i ! j =
      f_add A (base ! bidx b0 b ! bidx b1 h ! bidx b2 i ! bidx b3 j) (?added ! b ! h ! i ! j)"
    using broadcast4_nth(2) [OF base_shape(1) added base_shape(2-5), where f = "f_add A"] idx
    by (simp add: bidx_self)
  have entry: "broadcast4 (f_add A) base ?added ! b ! h ! i ! j =
      f_add A (base ! bidx b0 b ! bidx b1 h ! bidx b2 i ! bidx b3 j)
        (if dropout ! b ! h ! (query_chunk_idx * query_chunk_size + i)
                      ! (key_chunk_idx * key_chunk_size + j)
         then Fin (finfo_min dtype) else Fin 0)"
    unfolding sum_nth added_nth slice_nth ..
  show ?thesis
    unfolding tile Let_def
    by (intro exI [of _ "broadcast4 (f_add A) base ?added"] conjI refl sum entry)
       (simp_all add: entry)
qed

theorem dropout_adds_unscaled_minimum_witness:
  "\<exists>tile. chunk_attention_bias exact_arith 1 2 None False (Some [[[[True, False]]]]) (1 / 2) False
            Float16 0 0 = Inr tile \<and>
          has_shape4 tile 1 1 1 2 \<and> tile ! 0 ! 0 ! 0 ! 0 = Fin (- 65504) \<and>
          tile ! 0 ! 0 ! 0 ! 1 = Fin 0"
proof -
  have dropout: "has_shape4 [[[[True, False]]]] 1 1 1 2"
    by (simp add: has_shape4_def)
  have base: "chunk_attention_bias exact_arith 1 2 None True (Some [[[[True, False]]]]) (1 / 2)
                False Float16 0 0 = Inr [[[[Fin 0]]]]"
    by (simp add: chunk_attention_bias_def)
  have base_shape: "has_shape4 [[[[Fin 0]]]] 1 1 1 1"
    by (simp add: has_shape4_def)
  have zero: "\<forall>x. f_add exact_arith x (Fin 0) = x" "\<forall>x. f_add exact_arith (Fin 0) x = x"
    using arith_basic_exact by (simp_all add: arith_basic_def)
  show ?thesis
    using dropout_adds_unscaled_minimum [OF _ _ dropout _ _ base base_shape,
        where deterministic = False and b = 0 and h = 0 and i = 0 and j = 0]
      dropout_adds_unscaled_minimum [OF _ _ dropout _ _ base base_shape,
        where deterministic = False and b = 0 and h = 0 and i = 0 and j = 1]
      zero
    by (auto simp: bidx_def Let_def)
qed

text \<open>
  The claim as the specification words it scales the added value by the drop probability.
  With drop probability 1/2 in half precision the flagged entry of the tile is
  \<^verbatim>\<open>-65504\<close>, not \<^verbatim>\<open>-32752\<close>; no rounding takes place in this sum.
\<close>

theorem dropout_scaled_by_probability_counterexample:
  "chunk_attention_bias exact_arith 1 1 None False (Some [[[[True]]]]) (1 / 2) False Float16 0 0
     = Inr [[[[Fin (finfo_min Float16)]]]] \<and>
   chunk_attention_bias exact_arith 1 1 None False (Some [[[[True]]]]) (1 / 2) False Float16 0 0
     \<noteq> Inr [[[[Fin ((1 / 2) * finfo_min Float16)]]]]"
  by (simp add: chunk_attention_bias_def dynamic_slice_tile_def dynamic_slice1_def
      dim2_def dim3_def dim1_def broadcast4_def broadcast2_evals exact_arith_def)

section \<open>The online-softmax update\<close>

lemma dim1_nth0: "0 < length t \<Longrightarrow> dim1 t = length (t ! 0)"
  by (cases t) (simp_all add: dim1_def)

lemma dim2_nth0: "0 < length t \<Longrightarrow> dim2 t = dim1 (t ! 0)"
  by (cases t) (simp_all add: dim2_def)

lemma max_keepdims_nth:
  assumes "has_shape4 t n0 n1 n2 n3"
  shows "has_shape4 (max_keepdims t) n0 n1 n2 1"
    and "i < n0 \<Longrightarrow> j < n1 \<Longrightarrow> k < n2 \<Longrightarrow> max_keepdims t ! i ! j ! k ! 0 = max_row (t ! i ! j ! k)"
  using has_shape4_nth [OF assms]
  by (auto intro!: has_shape4_I simp: max_keepdims_def)

lemma sum_keepdims_nth:
  assumes "has_shape4 t n0 n1 n2 n3"
  shows "has_shape4 (sum_keepdims A t) n0 n1 n2 1"
    and "i < n0 \<Longrightarrow> j < n1 \<Longrightarrow> k < n2 \<Longrightarrow> sum_keepdims A t ! i ! j ! k ! 0 = f_sum A (t ! i ! j ! k)"
  using has_shape4_nth [OF assms]
  by (auto intro!: has_shape4_I simp: sum_keepdims_def)

lemma einsum_bqhv_bvhf_nth:
  assumes w: "has_shape4 w n0 n1 n2 n3" and y: "has_shape4 y n0 n3 n2 n4" and pos: "0 < n3"
  shows "has_shape4 (einsum_bqhv_bvhf A w y) n0 n1 n2 n4"
    and "b < n0 \<Longrightarrow> q < n1 \<Longrightarrow> h < n2 \<Longrightarrow> f < n4 \<Longrightarrow>
         einsum_bqhv_bvhf A w y ! b ! q ! h ! f =
           f_dot A (w ! b ! q ! h) (map (\<lambda>k. y ! b ! k ! h ! f) [0..<n3])"
proof -
  note ws = has_shape4_nth [OF w] and ys = has_shape4_nth [OF y]
  have d2: "dim2 (y ! b) = n4" if bh: "b < n0" "h < n2" for b h
  proof -
    have "dim2 (y ! b) = dim1 (y ! b ! 0)"
      using ys(2) [OF bh(1)] pos by (simp add: dim2_nth0)
    also have "\<dots> = length (y ! b ! 0 ! 0)"
      using ys(3) [OF bh(1) pos] bh(2) by (simp add: dim1_nth0)
    also have "\<dots> = n4"
      using ys(4) [OF bh(1) pos, of 0] bh(2) by simp
    finally show ?thesis .
  qed
  have column: "map (\<lambda>yv. yv ! h ! f) (y ! b) = map (\<lambda>k. y ! b ! k ! h ! f) [0..<n3]"
    if "b < n0" for b h f
    using ys(2) [OF that] by (intro nth_equalityI) simp_all
  have eb: "einsum_bqhv_bvhf A w y ! b =
            map (\<lambda>wq. map (\<lambda>h. map (\<lambda>f. f_dot A (wq ! h) (map (\<lambda>yv. yv ! h ! f) (y ! b)))
                                [0..<dim2 (y ! b)]) [0..<length wq]) (w ! b)"
    if "b < n0" for b
    using that by (simp add: einsum_bqhv_bvhf_def ws ys)
  show "has_shape4 (einsum_bqhv_bvhf A w y) n0 n1 n2 n4"
  proof (rule has_shape4_I)
    show "length (einsum_bqhv_bvhf A w y) = n0"
      by (simp add: einsum_bqhv_bvhf_def ws ys)
    show "length (einsum_bqhv_bvhf A w y ! b) = n1" if "b < n0" for b
      using that by (simp add: eb ws)
    show "length (einsum_bqhv_bvhf A w y ! b ! q) = n2" if "b < n0" "q < n1" for b q
      using that by (simp add: eb ws)
    show "length (einsum_bqhv_bvhf A w y ! b ! q ! h) = n4" if "b < n0" "q < n1" "h < n2" for b q h
      using that by (simp add: eb ws d2)
  qed
  show "einsum_bqhv_bvhf A w y ! b ! q ! h ! f =
          f_dot A (w ! b ! q ! h) (map (\<lambda>k. y ! b ! k ! h ! f) [0..<n3])"
    if "b < n0" "q < n1" "h < n2" "f < n4"
    using that by (simp add: eb ws d2 column)
qed

lemma broadcast4_same:
  assumes x: "has_shape4 x n0 n1 n2 n3" and y: "has_shape4 y n0 n1 n2 n3"
  shows "has_shape4 (broadcast4 f x y) n0 n1 n2 n3"
    and "i < n0 \<Longrightarrow> j < n1 \<Longrightarrow> k < n2 \<Longrightarrow> l < n3 \<Longrightarrow>
         broadcast4 f x y ! i ! j ! k ! l = f (x ! i ! j ! k ! l) (y ! i ! j ! k ! l)"
proof -
  show "has_shape4 (broadcast4 f x y) n0 n1 n2 n3"
    by (rule broadcast4_nth(1) [OF x y]) simp_all
  show "broadcast4 f x y ! i ! j ! k ! l = f (x ! i ! j ! k ! l) (y ! i ! j ! k ! l)"
    if "i < n0" "j < n1" "k < n2" "l < n3"
    using broadcast4_nth(2) [OF x y, where ?n0.0 = n0 and ?n1.0 = n1 and ?n2.0 = n2
        and ?n3.0 = n3 and f = f and i = i and j = j and k = k and l = l] that
    by (simp add: bidx_self)
qed

lemma broadcast4_keepdims:
  assumes x: "has_shape4 x n0 n1 n2 n3" and y: "has_shape4 y n0 n1 n2 1"
  shows "has_shape4 (broadcast4 f x y) n0 n1 n2 n3"
    and "i < n0 \<Longrightarrow> j < n1 \<Longrightarrow> k < n2 \<Longrightarrow> l < n3 \<Longrightarrow>
         broadcast4 f x y ! i ! j ! k ! l = f (x ! i ! j ! k ! l) (y ! i ! j ! k ! 0)"
proof -
  show "has_shape4 (broadcast4 f x y) n0 n1 n2 n3"
    by (rule broadcast4_nth(1) [OF x y]) simp_all
  have last: "bidx 1 l = 0"
    by (simp add: bidx_def)
  show "broadcast4 f x y ! i ! j ! k ! l = f (x ! i ! j ! k ! l) (y ! i ! j ! k ! 0)"
    if "i < n0" "j < n1" "k < n2" "l < n3"
    using broadcast4_nth(2) [OF x y, where ?n0.0 = n0 and ?n1.0 = n1 and ?n2.0 = n2
        and ?n3.0 = n3 and f = f and i = i and j = j and k = k and l = l] that last
    by (simp add: bidx_self)
qed

lemma no_empty_row:
  assumes "has_shape4 t n0 n1 n2 n3" and "0 < n3"
  shows "\<not> list_ex (list_ex (list_ex (\<lambda>row. row = []))) t"
  using assms unfolding has_shape4_def list_ex_iff list_all_iff by fastforce

text \<open>The maximum of a row of finite scores.\<close>

lemma max_row_finite: "xs \<noteq> [] \<Longrightarrow> max_row (map Fin xs) = Fin (Max (set xs))"
proof (induction xs)
  case Nil
  then show ?case by simp
next
  case (Cons x xs)
  show ?case
  proof (cases "xs = []")
    case True
    then show ?thesis by simp
  next
    case False
    then show ?thesis
      using Cons.IH by simp
  qed
qed

text \<open>
  One step of \<^verbatim>\<open>summarize_chunk\<close> on well-shaped operands with at least one key: the
  entries of the carry it returns, for one batch entry, query row and head.
\<close>

lemma summarize_chunk_entries:
  assumes scores: "attn_scores A chunk_bias_fn query_chunk query_chunk_idx key_chunk key_chunk_idx
                     = Inr scores"
    and shapes: "has_shape4 scores n0 n1 n2 n3" "has_shape4 value_chunk n0 n3 n2 n4"
      "has_shape4 (numerator carry) n0 n1 n2 n4" "has_shape4 (denominator carry) n0 n1 n2 n5"
      "has_shape4 (max_so_far carry) n0 n1 n2 1"
    and keys: "0 < n3"
    and idx: "b < n0" "q < n1" "h < n2"
  shows "\<exists>carry'.
           summarize_chunk A chunk_bias_fn query_chunk query_chunk_idx carry
             (key_chunk, value_chunk, key_chunk_idx) = Inr (carry', ()) \<and>
           has_shape4 (numerator carry') n0 n1 n2 n4 \<and>
           has_shape4 (denominator carry') n0 n1 n2 n5 \<and>
           has_shape4 (max_so_far carry') n0 n1 n2 1 \<and>
           max_so_far carry' ! b ! q ! h ! 0 =
             fmaximum (max_so_far carry ! b ! q ! h ! 0) (max_row (scores ! b ! q ! h)) \<and>
           (\<forall>f < n4. numerator carry' ! b ! q ! h ! f =
              f_add A
                (f_mul A (numerator carry ! b ! q ! h ! f)
                   (f_exp A (f_sub A (max_so_far carry ! b ! q ! h ! 0)
                      (max_so_far carry' ! b ! q ! h ! 0))))
                (f_dot A
                   (map (\<lambda>s. f_exp A (f_sub A s (max_so_far carry' ! b ! q ! h ! 0)))
                      (scores ! b ! q ! h))
                   (map (\<lambda>k. value_chunk ! b ! k ! h ! f) [0..<n3]))) \<and>
           (\<forall>g < n5. denominator carry' ! b ! q ! h ! g =
              f_add A
                (f_mul A (denominator carry ! b ! q ! h ! g)
                   (f_exp A (f_sub A (max_so_far carry ! b ! q ! h ! 0)
                      (max_so_far carry' ! b ! q ! h ! 0))))
                (f_sum A
                   (map (\<lambda>s. f_exp A (f_sub A s (max_so_far carry' ! b ! q ! h ! 0)))
                      (scores ! b ! q ! h))))"
proof -
  let ?prev = "max_so_far carry"
  let ?row_max = "max_keepdims scores"
  let ?max_score = "broadcast4 fmaximum ?prev ?row_max"
  let ?exp_weights = "broadcast4 (\<lambda>a m. f_exp A (f_sub A a m)) scores ?max_score"
  let ?exp_values = "einsum_bqhv_bvhf A ?exp_weights value_chunk"
  let ?correction = "broadcast4 (\<lambda>p m. f_exp A (f_sub A p m)) ?prev ?max_score"
  let ?carry' = "\<lparr> numerator = broadcast4 (f_add A)
                                   (broadcast4 (f_mul A) (numerator carry) ?correction) ?exp_values,
                   denominator = broadcast4 (f_add A)
                                   (broadcast4 (f_mul A) (denominator carry) ?correction)
                                   (sum_keepdims A ?exp_weights),
                   max_so_far = ?max_score \<rparr>"
  define prev_max where "prev_max = ?prev ! b ! q ! h ! 0"
  define row where "row = scores ! b ! q ! h"
  define new_max where "new_max = fmaximum prev_max (max_row row)"
  define correction where "correction = f_exp A (f_sub A prev_max new_max)"
  define weights where "weights = map (\<lambda>s. f_exp A (f_sub A s new_max)) row"
  note sc = shapes(1) and va = shapes(2) and nu = shapes(3) and de = shapes(4) and mx = shapes(5)
  have row_len: "length row = n3"
    using has_shape4_nth(4) [OF sc idx] by (simp add: row_def)
  have step: "summarize_chunk A chunk_bias_fn query_chunk query_chunk_idx carry
                (key_chunk, value_chunk, key_chunk_idx) = Inr (?carry', ())"
    using scores no_empty_row [OF sc keys] by (simp add: summarize_chunk_def Let_def)
  have rm: "has_shape4 ?row_max n0 n1 n2 1"
    and rm_nth: "?row_max ! b ! q ! h ! 0 = max_row row"
    using max_keepdims_nth [OF sc] idx by (simp_all add: row_def)
  have ms: "has_shape4 ?max_score n0 n1 n2 1"
    by (rule broadcast4_same(1) [OF mx rm])
  have ms_nth: "?max_score ! b ! q ! h ! 0 = new_max"
    using broadcast4_same(2) [OF mx rm idx, of 0 fmaximum] rm_nth
    by (simp add: new_max_def prev_max_def)
  have ew: "has_shape4 ?exp_weights n0 n1 n2 n3"
    by (rule broadcast4_keepdims(1) [OF sc ms])
  have ew_nth: "?exp_weights ! b ! q ! h ! k = f_exp A (f_sub A (row ! k) new_max)"
    if "k < n3" for k
    using broadcast4_keepdims(2) [OF sc ms idx that, of "\<lambda>a m. f_exp A (f_sub A a m)"] ms_nth
    by (simp add: row_def)
  have ew_row: "?exp_weights ! b ! q ! h = weights"
    unfolding weights_def
    using has_shape4_nth(4) [OF ew idx] row_len ew_nth by (intro nth_equalityI) simp_all
  have ev: "has_shape4 ?exp_values n0 n1 n2 n4"
    by (rule einsum_bqhv_bvhf_nth(1) [OF ew va keys])
  have ev_nth: "?exp_values ! b ! q ! h ! f =
                f_dot A weights (map (\<lambda>k. value_chunk ! b ! k ! h ! f) [0..<n3])"
    if "f < n4" for f
    using einsum_bqhv_bvhf_nth(2) [OF ew va keys idx that] ew_row by simp
  have co: "has_shape4 ?correction n0 n1 n2 1"
    by (rule broadcast4_same(1) [OF mx ms])
  have co_nth: "?correction ! b ! q ! h ! 0 = correction"
    using broadcast4_same(2) [OF mx ms idx, of 0 "\<lambda>p m. f_exp A (f_sub A p m)"] ms_nth
    by (simp add: correction_def prev_max_def)
  have nc: "has_shape4 (broadcast4 (f_mul A) (numerator carry) ?correction) n0 n1 n2 n4"
    by (rule broadcast4_keepdims(1) [OF nu co])
  have nc_nth: "broadcast4 (f_mul A) (numerator carry) ?correction ! b ! q ! h ! f =
                f_mul A (numerator carry ! b ! q ! h ! f) correction" if "f < n4" for f
    using broadcast4_keepdims(2) [OF nu co idx that, of "f_mul A"] co_nth by simp
  have num_shape: "has_shape4 (numerator ?carry') n0 n1 n2 n4"
    using broadcast4_same(1) [OF nc ev, of "f_add A"] by simp
  have num_nth: "numerator ?carry' ! b ! q ! h ! f =
                 f_add A (f_mul A (numerator carry ! b ! q ! h ! f) correction)
                   (f_dot A weights (map (\<lambda>k. value_chunk ! b ! k ! h ! f) [0..<n3]))"
    if "f < n4" for f
    using broadcast4_same(2) [OF nc ev idx that, of "f_add A"] nc_nth [OF that] ev_nth [OF that]
    by simp
  have sk: "has_shape4 (sum_keepdims A ?exp_weights) n0 n1 n2 1"
    by (rule sum_keepdims_nth(1) [OF ew])
  have sk_nth: "sum_keepdims A ?exp_weights ! b ! q ! h ! 0 = f_sum A weights"
    using sum_keepdims_nth(2) [OF ew idx] ew_row by simp
  have dc: "has_shape4 (broadcast4 (f_mul A) (denominator carry) ?correction) n0 n1 n2 n5"
    by (rule broadcast4_keepdims(1) [OF de co])
  have dc_nth: "broadcast4 (f_mul A) (denominator carry) ?correction ! b ! q ! h ! g =
                f_mul A (denominator carry ! b ! q ! h ! g) correction" if "g < n5" for g
    using broadcast4_keepdims(2) [OF de co idx that, of "f_mul A"] co_nth by simp
  have den_shape: "has_shape4 (denominator ?carry') n0 n1 n2 n5"
    using broadcast4_keepdims(1) [OF dc sk, of "f_add A"] by simp
  have den_nth: "denominator ?carry' ! b ! q ! h ! g =
                 f_add A (f_mul A (denominator carry ! b ! q ! h ! g) correction)
                   (f_sum A weights)"
    if "g < n5" for g
    using broadcast4_keepdims(2) [OF dc sk idx that, of "f_add A"] dc_nth [OF that] sk_nth
    by simp
  have max_shape: "has_shape4 (max_so_far ?carry') n0 n1 n2 1"
    using ms by simp
  have max_nth: "max_so_far ?carry' ! b ! q ! h ! 0 = new_max"
    using ms_nth by simp
  show ?thesis
    apply (rule exI [of _ ?carry'])
    apply (intro conjI allI impI)
          apply (rule step)
         apply (rule num_shape)
        apply (rule den_shape)
       apply (rule max_shape)
      apply (simp only: max_nth new_max_def prev_max_def row_def)
     apply (simp only: max_nth num_nth correction_def prev_max_def weights_def row_def)
    apply (simp only: max_nth den_nth correction_def prev_max_def weights_def row_def)
    done
qed

lemma max_row_all_neg_inf: "\<forall>s \<in> set row. s = NegInf \<Longrightarrow> max_row row = NegInf"
  by (induction row) simp_all

lemma fmaximum_NaN_right: "fmaximum x NaN = NaN"
  by (cases x) simp_all

lemma max_row_NaN: "NaN \<in> set row \<Longrightarrow> max_row row = NaN"
  by (induction row) (auto simp: fmaximum_NaN_right)

text \<open>
  Claim C2. On a block pair that is not skipped, with scores of shape
  (batch, queries, heads, keys) and at least one key, \<^verbatim>\<open>skip_upper_half\<close> returns a carry
  whose entries are, for every batch entry, query row and head, the following. The new
  maximum is the greater of the previous running maximum and the maximum of the row of
  scores: for finite scores and a finite previous maximum \<^verbatim>\<open>p\<close> it is the maximum of
  \<^verbatim>\<open>p\<close> and the scores, for the initial \<^verbatim>\<open>-inf\<close> it is the maximum of the scores, it is
  \<^verbatim>\<open>-inf\<close> when the previous maximum and all scores are \<^verbatim>\<open>-inf\<close>, and NaN when a score
  is NaN. The weights are the exponentials of the differences of the scores and the new
  maximum, the correction is the exponential of the difference of the previous and the new
  maximum, the new numerator is the sum of the product of the numerator and the correction
  and of the contraction of the weights with the values, and the new denominator is the sum
  of the product of the denominator and the correction and of the sum of the weights, all
  in the arithmetic of the platform. After the scan over key and value blocks of the same
  number the output of the query block is the quotient of the final numerator and the final
  denominator, entry by entry; key and value blocks of different numbers raise.
\<close>

theorem online_softmax_update:
  assumes scores: "attn_scores A chunk_bias_fn query_chunk query_chunk_idx key_chunk key_chunk_idx
                     = Inr scores"
    and shapes: "has_shape4 scores n0 n1 n2 n3" "has_shape4 value_chunk n0 n3 n2 n4"
      "has_shape4 (numerator carry) n0 n1 n2 n4" "has_shape4 (denominator carry) n0 n1 n2 n5"
      "has_shape4 (max_so_far carry) n0 n1 n2 1"
    and keys: "0 < n3"
    and idx: "b < n0" "q < n1" "h < n2"
    and not_skipped: "\<not> skip_block causal query_chunk_idx key_chunk_idx"
  shows "(\<exists>carry'.
           skip_upper_half causal A chunk_bias_fn query_chunk query_chunk_idx carry
             (key_chunk, value_chunk, key_chunk_idx) = Inr (carry', ()) \<and>
           (let prev_max = max_so_far carry ! b ! q ! h ! 0;
                row = scores ! b ! q ! h;
                new_max = max_so_far carry' ! b ! q ! h ! 0;
                exp_weights = map (\<lambda>s. f_exp A (f_sub A s new_max)) row;
                correction = f_exp A (f_sub A prev_max new_max)
            in new_max = fmaximum prev_max (max_row row) \<and>
               (\<forall>p xs. prev_max = Fin p \<and> row = map Fin xs \<longrightarrow>
                  new_max = Fin (max p (Max (set xs)))) \<and>
               (\<forall>xs. prev_max = NegInf \<and> row = map Fin xs \<longrightarrow> new_max = Fin (Max (set xs))) \<and>
               (prev_max = NegInf \<and> (\<forall>s \<in> set row. s = NegInf) \<longrightarrow> new_max = NegInf) \<and>
               (NaN \<in> set row \<longrightarrow> new_max = NaN) \<and>
               (\<forall>f < n4. numerator carry' ! b ! q ! h ! f =
                  f_add A (f_mul A (numerator carry ! b ! q ! h ! f) correction)
                    (f_dot A exp_weights (map (\<lambda>k. value_chunk ! b ! k ! h ! f) [0..<n3]))) \<and>
               (\<forall>g < n5. denominator carry' ! b ! q ! h ! g =
                  f_add A (f_mul A (denominator carry ! b ! q ! h ! g) correction)
                    (f_sum A exp_weights)))) \<and>
         (\<forall>final u key value batch query_chunk_size num_heads dim_per_head.
            length value = length key \<and>
            scan (skip_upper_half causal A chunk_bias_fn query_chunk query_chunk_idx)
              (init_carry batch query_chunk_size num_heads dim_per_head)
              (zip key (zip value [0..<length key])) = Inr (final, u) \<and>
            has_shape4 (numerator final) n0 n1 n2 n4 \<and>
            has_shape4 (denominator final) n0 n1 n2 n4 \<longrightarrow>
            (\<exists>outputs.
               query_chunk_attention causal A chunk_bias_fn batch query_chunk_size num_heads
                 dim_per_head key value (query_chunk, query_chunk_idx) = Inr outputs \<and>
               (\<forall>f < n4. outputs ! b ! q ! h ! f =
                  f_div A (numerator final ! b ! q ! h ! f) (denominator final ! b ! q ! h ! f)))) \<and>
         (\<forall>key value batch query_chunk_size num_heads dim_per_head.
            length value \<noteq> length key \<longrightarrow>
            query_chunk_attention causal A chunk_bias_fn batch query_chunk_size num_heads
              dim_per_head key value (query_chunk, query_chunk_idx) = Inl ValueError)"
proof -
  obtain carry' where
    step: "summarize_chunk A chunk_bias_fn query_chunk query_chunk_idx carry
             (key_chunk, value_chunk, key_chunk_idx) = Inr (carry', ())"
    and new_max: "max_so_far carry' ! b ! q ! h ! 0 =
             fmaximum (max_so_far carry ! b ! q ! h ! 0) (max_row (scores ! b ! q ! h))"
    and num: "\<forall>f < n4. numerator carry' ! b ! q ! h ! f =
              f_add A
                (f_mul A (numerator carry ! b ! q ! h ! f)
                   (f_exp A (f_sub A (max_so_far carry ! b ! q ! h ! 0)
                      (max_so_far carry' ! b ! q ! h ! 0))))
                (f_dot A
                   (map (\<lambda>s. f_exp A (f_sub A s (max_so_far carry' ! b ! q ! h ! 0)))
                      (scores ! b ! q ! h))
                   (map (\<lambda>k. value_chunk ! b ! k ! h ! f) [0..<n3]))"
    and den: "\<forall>g < n5. denominator carry' ! b ! q ! h ! g =
              f_add A
                (f_mul A (denominator carry ! b ! q ! h ! g)
                   (f_exp A (f_sub A (max_so_far carry ! b ! q ! h ! 0)
                      (max_so_far carry' ! b ! q ! h ! 0))))
                (f_sum A
                   (map (\<lambda>s. f_exp A (f_sub A s (max_so_far carry' ! b ! q ! h ! 0)))
                      (scores ! b ! q ! h)))"
    using summarize_chunk_entries [OF scores shapes keys idx] by blast
  have row_len: "length (scores ! b ! q ! h) = n3"
    using has_shape4_nth(4) [OF shapes(1) idx] .
  have step': "skip_upper_half causal A chunk_bias_fn query_chunk query_chunk_idx carry
                (key_chunk, value_chunk, key_chunk_idx) = Inr (carry', ())"
    using step not_skipped by (simp add: skip_upper_half_def)
  have finite_prev: "max_so_far carry' ! b ! q ! h ! 0 = Fin (max p (Max (set xs)))"
    if "max_so_far carry ! b ! q ! h ! 0 = Fin p" "scores ! b ! q ! h = map Fin xs" for p xs
  proof -
    have "xs \<noteq> []"
      using that(2) row_len keys by auto
    then show ?thesis
      using that by (simp add: new_max max_row_finite)
  qed
  have first: "max_so_far carry' ! b ! q ! h ! 0 = Fin (Max (set xs))"
    if "max_so_far carry ! b ! q ! h ! 0 = NegInf" "scores ! b ! q ! h = map Fin xs" for xs
  proof -
    have "xs \<noteq> []"
      using that(2) row_len keys by auto
    then show ?thesis
      using that by (simp add: new_max max_row_finite)
  qed
  have all_neg_inf: "max_so_far carry' ! b ! q ! h ! 0 = NegInf"
    if "max_so_far carry ! b ! q ! h ! 0 = NegInf" "\<forall>s \<in> set (scores ! b ! q ! h). s = NegInf"
    using that by (simp add: new_max max_row_all_neg_inf)
  have nan: "max_so_far carry' ! b ! q ! h ! 0 = NaN" if "NaN \<in> set (scores ! b ! q ! h)"
    using that by (simp add: new_max max_row_NaN fmaximum_NaN_right)
  have update: "\<exists>carry'.
           skip_upper_half causal A chunk_bias_fn query_chunk query_chunk_idx carry
             (key_chunk, value_chunk, key_chunk_idx) = Inr (carry', ()) \<and>
           (let prev_max = max_so_far carry ! b ! q ! h ! 0;
                row = scores ! b ! q ! h;
                new_max = max_so_far carry' ! b ! q ! h ! 0;
                exp_weights = map (\<lambda>s. f_exp A (f_sub A s new_max)) row;
                correction = f_exp A (f_sub A prev_max new_max)
            in new_max = fmaximum prev_max (max_row row) \<and>
               (\<forall>p xs. prev_max = Fin p \<and> row = map Fin xs \<longrightarrow>
                  new_max = Fin (max p (Max (set xs)))) \<and>
               (\<forall>xs. prev_max = NegInf \<and> row = map Fin xs \<longrightarrow> new_max = Fin (Max (set xs))) \<and>
               (prev_max = NegInf \<and> (\<forall>s \<in> set row. s = NegInf) \<longrightarrow> new_max = NegInf) \<and>
               (NaN \<in> set row \<longrightarrow> new_max = NaN) \<and>
               (\<forall>f < n4. numerator carry' ! b ! q ! h ! f =
                  f_add A (f_mul A (numerator carry ! b ! q ! h ! f) correction)
                    (f_dot A exp_weights (map (\<lambda>k. value_chunk ! b ! k ! h ! f) [0..<n3]))) \<and>
               (\<forall>g < n5. denominator carry' ! b ! q ! h ! g =
                  f_add A (f_mul A (denominator carry ! b ! q ! h ! g) correction)
                    (f_sum A exp_weights)))"
    unfolding Let_def
    using step' new_max finite_prev first all_neg_inf nan num den
    by (intro exI [of _ carry']) blast
  have final: "\<exists>outputs.
               query_chunk_attention causal A chunk_bias_fn batch query_chunk_size num_heads
                 dim_per_head key value (query_chunk, query_chunk_idx) = Inr outputs \<and>
               (\<forall>f < n4. outputs ! b ! q ! h ! f =
                  f_div A (numerator final ! b ! q ! h ! f) (denominator final ! b ! q ! h ! f))"
    if len: "length value = length key"
      and sc: "scan (skip_upper_half causal A chunk_bias_fn query_chunk query_chunk_idx)
              (init_carry batch query_chunk_size num_heads dim_per_head)
              (zip key (zip value [0..<length key])) = Inr (final, u)"
      and fn: "has_shape4 (numerator final) n0 n1 n2 n4"
      and fd: "has_shape4 (denominator final) n0 n1 n2 n4"
    for final u key "value" batch query_chunk_size num_heads dim_per_head
  proof -
    have "query_chunk_attention causal A chunk_bias_fn batch query_chunk_size num_heads
            dim_per_head key value (query_chunk, query_chunk_idx) =
          Inr (broadcast4 (f_div A) (numerator final) (denominator final))"
      using sc len by (simp add: query_chunk_attention_def)
    moreover have "broadcast4 (f_div A) (numerator final) (denominator final) ! b ! q ! h ! f =
          f_div A (numerator final ! b ! q ! h ! f) (denominator final ! b ! q ! h ! f)"
      if "f < n4" for f
      by (rule broadcast4_same(2) [OF fn fd idx that])
    ultimately show ?thesis by simp
  qed
  have mismatch: "query_chunk_attention causal A chunk_bias_fn batch query_chunk_size num_heads
              dim_per_head key value (query_chunk, query_chunk_idx) = Inl ValueError"
    if "length value \<noteq> length key"
    for key "value" batch query_chunk_size num_heads dim_per_head
    using that by (simp add: query_chunk_attention_def)
  show ?thesis
    using update final mismatch by blast
qed

lemma ln_facts:
  "exp (ln 2 - ln 4) = (1 / 2 :: real)" "exp (- ln 4) = (1 / 4 :: real)"
  "exp (- ln 2) = (1 / 2 :: real)"
  "max (ln 2) (ln 4) = (ln 4 :: real)" "max (ln 4) (ln 2) = (ln 4 :: real)"
  "max (ln 4) 0 = (ln 4 :: real)" "max 0 (ln 2) = (ln 2 :: real)" "max (ln 2) 0 = (ln 2 :: real)"
  by (simp_all add: exp_diff exp_minus max_def)

text \<open>
  Three key blocks of two keys for one query of head dimension 1, in the arithmetic without
  rounding: the scores are \<^verbatim>\<open>0, ln 2\<close>, then \<^verbatim>\<open>ln 4, 0\<close>, then \<^verbatim>\<open>ln 2, 0\<close>, so the
  running maximum rises at the second block and stays at the third.
\<close>

theorem online_softmax_update_witness:
  "skip_upper_half False exact_arith (\<lambda>_ _. Inr [[[[Fin 0]]]]) [[[[Fin 1]]]] 0 (init_carry 1 1 1 1)
     ([[[[Fin 0]], [[Fin (ln 2)]]]], [[[[Fin 5]], [[Fin 7]]]], 0)
     = Inr (\<lparr> numerator = [[[[Fin (19 / 2)]]]], denominator = [[[[Fin (3 / 2)]]]],
              max_so_far = [[[[Fin (ln 2)]]]] \<rparr>, ()) \<and>
   (\<exists>carry'.
      skip_upper_half False exact_arith (\<lambda>_ _. Inr [[[[Fin 0]]]]) [[[[Fin 1]]]] 0
        \<lparr> numerator = [[[[Fin (19 / 2)]]]], denominator = [[[[Fin (3 / 2)]]]],
          max_so_far = [[[[Fin (ln 2)]]]] \<rparr>
        ([[[[Fin (ln 4)]], [[Fin 0]]]], [[[[Fin 11]], [[Fin 13]]]], 1) = Inr (carry', ()) \<and>
      max_so_far carry' ! 0 ! 0 ! 0 ! 0 = Fin (ln 4) \<and>
      numerator carry' ! 0 ! 0 ! 0 ! 0 = Fin 19 \<and>
      denominator carry' ! 0 ! 0 ! 0 ! 0 = Fin 2) \<and>
   (\<exists>carry'.
      skip_upper_half False exact_arith (\<lambda>_ _. Inr [[[[Fin 0]]]]) [[[[Fin 1]]]] 0
        \<lparr> numerator = [[[[Fin 19]]]], denominator = [[[[Fin 2]]]],
          max_so_far = [[[[Fin (ln 4)]]]] \<rparr>
        ([[[[Fin (ln 2)]], [[Fin 0]]]], [[[[Fin 2]], [[Fin 4]]]], 2) = Inr (carry', ()) \<and>
      max_so_far carry' ! 0 ! 0 ! 0 ! 0 = Fin (ln 4) \<and>
      numerator carry' ! 0 ! 0 ! 0 ! 0 = Fin 21 \<and>
      denominator carry' ! 0 ! 0 ! 0 ! 0 = Fin (11 / 4)) \<and>
   (\<exists>outputs.
      query_chunk_attention False exact_arith (\<lambda>_ _. Inr [[[[Fin 0]]]]) 1 1 1 1
        [[[[[Fin 0]], [[Fin (ln 2)]]]], [[[[Fin (ln 4)]], [[Fin 0]]]], [[[[Fin (ln 2)]], [[Fin 0]]]]]
        [[[[[Fin 5]], [[Fin 7]]]], [[[[Fin 11]], [[Fin 13]]]], [[[[Fin 2]], [[Fin 4]]]]]
        ([[[[Fin 1]]]], 0) = Inr outputs \<and>
      outputs ! 0 ! 0 ! 0 ! 0 = Fin (84 / 11)) \<and>
   query_chunk_attention False exact_arith (\<lambda>_ _. Inr [[[[Fin 0]]]]) 1 1 1 1
     [[[[[Fin 0]], [[Fin (ln 2)]]]], [[[[Fin (ln 4)]], [[Fin 0]]]]] [[[[[Fin 5]], [[Fin 7]]]]]
     ([[[[Fin 1]]]], 0) = Inl ValueError"
proof -
  let ?f = "\<lambda>(_ :: nat) (_ :: nat). (Inr [[[[Fin 0]]]] :: error + fl tensor4)"
  let ?q = "[[[[Fin 1]]]]"
  let ?k0 = "[[[[Fin 0]], [[Fin (ln 2)]]]]" and ?v0 = "[[[[Fin 5]], [[Fin 7]]]]"
  let ?k1 = "[[[[Fin (ln 4)]], [[Fin 0]]]]" and ?v1 = "[[[[Fin 11]], [[Fin 13]]]]"
  let ?k2 = "[[[[Fin (ln 2)]], [[Fin 0]]]]" and ?v2 = "[[[[Fin 2]], [[Fin 4]]]]"
  let ?carry1 = "\<lparr> numerator = [[[[Fin (19 / 2)]]]], denominator = [[[[Fin (3 / 2)]]]],
                    max_so_far = [[[[Fin (ln 2)]]]] \<rparr>"
  let ?carry2 = "\<lparr> numerator = [[[[Fin 19]]]], denominator = [[[[Fin 2]]]],
                    max_so_far = [[[[Fin (ln 4)]]]] \<rparr>"
  let ?carry3 = "\<lparr> numerator = [[[[Fin 21]]]], denominator = [[[[Fin (11 / 4)]]]],
                    max_so_far = [[[[Fin (ln 4)]]]] \<rparr>"
  note eval = summarize_chunk_def skip_upper_half_def skip_block_def attn_scores_def
    einsum_bqhd_bkhd_def einsum_bqhv_bvhf_def moveaxis_1_2_def max_keepdims_def sum_keepdims_def
    broadcast4_def broadcast2_evals init_carry_def tab4_def dim1_def dim2_def upt_evals Let_def
    exact_arith_def ln_facts
  have scores: "attn_scores exact_arith ?f ?q 0 ?k1 1 = Inr [[[[Fin (ln 4), Fin 0]]]]"
    "attn_scores exact_arith ?f ?q 0 ?k2 2 = Inr [[[[Fin (ln 2), Fin 0]]]]"
    by (simp_all add: eval)
  have shapes: "has_shape4 [[[[Fin (ln 4), Fin 0]]]] 1 1 1 2" "has_shape4 ?v1 1 2 1 1"
    "has_shape4 [[[[Fin (ln 2), Fin 0]]]] 1 1 1 2" "has_shape4 ?v2 1 2 1 1"
    "has_shape4 (numerator ?carry1) 1 1 1 1" "has_shape4 (denominator ?carry1) 1 1 1 1"
    "has_shape4 (max_so_far ?carry1) 1 1 1 1"
    "has_shape4 (numerator ?carry2) 1 1 1 1" "has_shape4 (denominator ?carry2) 1 1 1 1"
    "has_shape4 (max_so_far ?carry2) 1 1 1 1"
    "has_shape4 (numerator ?carry3) 1 1 1 1" "has_shape4 (denominator ?carry3) 1 1 1 1"
    by (simp_all add: has_shape4_def)
  have keys: "0 < (2 :: nat)" and idx: "(0 :: nat) < 1"
    by simp_all
  have not_skipped: "\<not> skip_block False 0 k" for k
    by (simp add: skip_block_def)
  have step0: "skip_upper_half False exact_arith ?f ?q 0 (init_carry 1 1 1 1) (?k0, ?v0, 0)
                 = Inr (?carry1, ())"
    by (simp add: eval)
  have step1: "skip_upper_half False exact_arith ?f ?q 0 ?carry1 (?k1, ?v1, 1) = Inr (?carry2, ())"
    by (simp add: eval)
  have step2: "skip_upper_half False exact_arith ?f ?q 0 ?carry2 (?k2, ?v2, 2) = Inr (?carry3, ())"
    by (simp add: eval)
  have scan: "scan (skip_upper_half False exact_arith ?f ?q 0) (init_carry 1 1 1 1)
                (zip [?k0, ?k1, ?k2] (zip [?v0, ?v1, ?v2] [0..<length [?k0, ?k1, ?k2]]))
              = Inr (?carry3, [(), (), ()])"
  proof -
    have xs: "zip [?k0, ?k1, ?k2] (zip [?v0, ?v1, ?v2] [0..<length [?k0, ?k1, ?k2]])
            = [(?k0, ?v0, 0), (?k1, ?v1, 1), (?k2, ?v2, 2)]"
      by (simp add: upt_rec)
    show ?thesis
      unfolding xs using step0 step1 step2 by simp
  qed
  note rising = online_softmax_update [OF scores(1) shapes(1,2,5,6,7) keys idx idx idx not_skipped]
  note staying = online_softmax_update [OF scores(2) shapes(3,4,8,9,10) keys idx idx idx not_skipped]
  have second: "\<exists>carry'.
      skip_upper_half False exact_arith ?f ?q 0 ?carry1 (?k1, ?v1, 1) = Inr (carry', ()) \<and>
      max_so_far carry' ! 0 ! 0 ! 0 ! 0 = Fin (ln 4) \<and>
      numerator carry' ! 0 ! 0 ! 0 ! 0 = Fin 19 \<and>
      denominator carry' ! 0 ! 0 ! 0 ! 0 = Fin 2"
    using rising [THEN conjunct1] by (auto simp: Let_def ln_facts exact_arith_def upt_evals)
  have third: "\<exists>carry'.
      skip_upper_half False exact_arith ?f ?q 0 ?carry2 (?k2, ?v2, 2) = Inr (carry', ()) \<and>
      max_so_far carry' ! 0 ! 0 ! 0 ! 0 = Fin (ln 4) \<and>
      numerator carry' ! 0 ! 0 ! 0 ! 0 = Fin 21 \<and>
      denominator carry' ! 0 ! 0 ! 0 ! 0 = Fin (11 / 4)"
    using staying [THEN conjunct1] by (auto simp: Let_def ln_facts exact_arith_def upt_evals)
  have outputs: "\<exists>outputs.
      query_chunk_attention False exact_arith ?f 1 1 1 1 [?k0, ?k1, ?k2] [?v0, ?v1, ?v2] (?q, 0)
        = Inr outputs \<and>
      outputs ! 0 ! 0 ! 0 ! 0 = Fin (84 / 11)"
    using staying [THEN conjunct2, THEN conjunct1, rule_format,
        OF conjI [OF _ conjI [OF scan conjI [OF shapes(11,12)]]]]
    by (auto simp: exact_arith_def)
  have mismatch: "query_chunk_attention False exact_arith ?f 1 1 1 1 [?k0, ?k1] [?v0] (?q, 0)
                    = Inl ValueError"
    using staying [THEN conjunct2, THEN conjunct2, rule_format, of "[?v0]" "[?k0, ?k1]" 1 1 1 1]
    by simp
  show ?thesis
    using step0 second third outputs mismatch by blast
qed

section \<open>The causal skip policy\<close>

lemma zip_key_value_index:
  "length value = length key \<Longrightarrow>
   zip key (zip value [0..<length key]) = map (\<lambda>ki. (key ! ki, value ! ki, ki)) [0..<length key]"
  by (intro nth_equalityI) simp_all

lemma processed_key_blocks_causal:
  "processed_key_blocks True query_chunk_idx num_kv = [0..<min (Suc query_chunk_idx) num_kv]"
proof (induction num_kv)
  case 0
  then show ?case by (simp add: processed_key_blocks_def)
next
  case (Suc n)
  have "processed_key_blocks True query_chunk_idx (Suc n) =
        processed_key_blocks True query_chunk_idx n @ (if n \<le> query_chunk_idx then [n] else [])"
    by (simp add: processed_key_blocks_def skip_block_def not_less)
  also have "\<dots> = [0..<min (Suc query_chunk_idx) (Suc n)]"
  proof (cases "n \<le> query_chunk_idx")
    case True
    then show ?thesis by (simp add: Suc.IH min_def)
  next
    case False
    then show ?thesis by (simp add: Suc.IH min_def)
  qed
  finally show ?case .
qed

lemma processed_key_blocks_not_causal: "processed_key_blocks False query_chunk_idx num_kv = [0..<num_kv]"
  by (simp add: processed_key_blocks_def skip_block_def)

text \<open>
  The scan of \<^verbatim>\<open>skip_upper_half\<close> ends with the carry (or the error) of the scan of
  \<^verbatim>\<open>summarize_chunk\<close> over the steps that are not skipped.
\<close>

lemma scan_skip_upper_half:
  "map_sum id fst (scan (skip_upper_half causal A chunk_bias_fn query_chunk query_chunk_idx) carry xs) =
   map_sum id fst (scan (summarize_chunk A chunk_bias_fn query_chunk query_chunk_idx) carry
     (filter (\<lambda>x. \<not> skip_block causal query_chunk_idx (snd (snd x))) xs))"
proof (induction xs arbitrary: carry)
  case Nil
  then show ?case by simp
next
  case (Cons x xs)
  obtain key_chunk value_chunk key_chunk_idx where x: "x = (key_chunk, value_chunk, key_chunk_idx)"
    by (cases x) auto
  show ?case
  proof (cases "skip_block causal query_chunk_idx key_chunk_idx")
    case True
    then have skip: "skip_upper_half causal A chunk_bias_fn query_chunk query_chunk_idx carry x =
                       Inr (carry, ())"
      by (simp add: x skip_upper_half_def)
    have "map_sum id fst (scan (skip_upper_half causal A chunk_bias_fn query_chunk query_chunk_idx)
            carry (x # xs)) =
          map_sum id fst (scan (skip_upper_half causal A chunk_bias_fn query_chunk query_chunk_idx)
            carry xs)"
      by (cases "scan (skip_upper_half causal A chunk_bias_fn query_chunk query_chunk_idx) carry xs")
         (auto simp: skip)
    also have "\<dots> = map_sum id fst (scan (summarize_chunk A chunk_bias_fn query_chunk query_chunk_idx)
            carry (filter (\<lambda>x. \<not> skip_block causal query_chunk_idx (snd (snd x))) xs))"
      by (rule Cons.IH)
    also have "filter (\<lambda>x. \<not> skip_block causal query_chunk_idx (snd (snd x))) xs =
               filter (\<lambda>x. \<not> skip_block causal query_chunk_idx (snd (snd x))) (x # xs)"
      using True by (simp add: x)
    finally show ?thesis .
  next
    case False
    then have step: "skip_upper_half causal A chunk_bias_fn query_chunk query_chunk_idx carry x =
                       summarize_chunk A chunk_bias_fn query_chunk query_chunk_idx carry x"
      by (simp add: x skip_upper_half_def)
    have kept: "filter (\<lambda>x. \<not> skip_block causal query_chunk_idx (snd (snd x))) (x # xs) =
                x # filter (\<lambda>x. \<not> skip_block causal query_chunk_idx (snd (snd x))) xs"
      using False by (simp add: x)
    show ?thesis
    proof (cases "summarize_chunk A chunk_bias_fn query_chunk query_chunk_idx carry x")
      case (Inl e)
      then show ?thesis
        unfolding kept by (simp add: step)
    next
      case (Inr r)
      obtain carry' u where r: "r = (carry', u)"
        by (cases r) auto
      show ?thesis
        unfolding kept using Cons.IH [of carry']
        by (cases "scan (skip_upper_half causal A chunk_bias_fn query_chunk query_chunk_idx) carry' xs";
            cases "scan (summarize_chunk A chunk_bias_fn query_chunk query_chunk_idx) carry'
                     (filter (\<lambda>x. \<not> skip_block causal query_chunk_idx (snd (snd x))) xs)")
           (auto simp: step Inr r)
    qed
  qed
qed

lemma scan_processed_key_blocks:
  assumes "length value = length key"
  shows "map_sum id fst (scan (skip_upper_half causal A chunk_bias_fn query_chunk query_chunk_idx)
           carry (zip key (zip value [0..<length key]))) =
         map_sum id fst (scan (summarize_chunk A chunk_bias_fn query_chunk query_chunk_idx) carry
           (map (\<lambda>ki. (key ! ki, value ! ki, ki))
              (processed_key_blocks causal query_chunk_idx (length key))))"
  unfolding scan_skip_upper_half zip_key_value_index [OF assms]
  by (simp add: filter_map o_def processed_key_blocks_def)

lemma final_carry_case:
  "(case r of Inl e \<Rightarrow> Inl e | Inr (carry, u) \<Rightarrow> Inr (g carry)) =
   (case map_sum id fst r of Inl e \<Rightarrow> Inl e | Inr carry \<Rightarrow> Inr (g carry))"
  by (cases r) auto

text \<open>
  Claim C4, as the code has it. Under causal attention a pair of blocks is skipped exactly
  when the key block index is greater than the query block index; on a skipped pair
  \<^verbatim>\<open>skip_upper_half\<close> returns the carry it was given, and on any other pair it runs
  \<^verbatim>\<open>summarize_chunk\<close>, which folds the scores of the pair into the running maximum. For
  key and value chunks of the same number, the key blocks that query block \<^verbatim>\<open>q\<close>
  processes are those with index below \<^verbatim>\<open>min (q + 1) num_kv\<close>: the diagonal block when
  \<^verbatim>\<open>q < num_kv\<close>, block 0 when there is a key block. The scan of the query block ends with
  the carry of \<^verbatim>\<open>summarize_chunk\<close> run on these blocks in ascending order, and the output
  of \<^verbatim>\<open>_query_chunk_attention\<close> is the quotient of that carry.
\<close>

theorem causal_skip_policy:
  assumes len: "length value = length key"
  shows "(skip_block True query_chunk_idx key_chunk_idx \<longleftrightarrow> query_chunk_idx < key_chunk_idx) \<and>
   (query_chunk_idx < key_chunk_idx \<longrightarrow>
      skip_upper_half True A chunk_bias_fn query_chunk query_chunk_idx carry
        (key_chunk, value_chunk, key_chunk_idx) = Inr (carry, ())) \<and>
   (\<not> query_chunk_idx < key_chunk_idx \<longrightarrow>
      skip_upper_half True A chunk_bias_fn query_chunk query_chunk_idx carry
        (key_chunk, value_chunk, key_chunk_idx) =
      summarize_chunk A chunk_bias_fn query_chunk query_chunk_idx carry
        (key_chunk, value_chunk, key_chunk_idx)) \<and>
   (\<forall>scores n0 n1 n2 n3 n4 n5 b q h.
      \<not> query_chunk_idx < key_chunk_idx \<and>
      attn_scores A chunk_bias_fn query_chunk query_chunk_idx key_chunk key_chunk_idx = Inr scores \<and>
      has_shape4 scores n0 n1 n2 n3 \<and> has_shape4 value_chunk n0 n3 n2 n4 \<and>
      has_shape4 (numerator carry) n0 n1 n2 n4 \<and> has_shape4 (denominator carry) n0 n1 n2 n5 \<and>
      has_shape4 (max_so_far carry) n0 n1 n2 1 \<and> 0 < n3 \<and> b < n0 \<and> q < n1 \<and> h < n2 \<longrightarrow>
      (\<exists>carry'.
         skip_upper_half True A chunk_bias_fn query_chunk query_chunk_idx carry
           (key_chunk, value_chunk, key_chunk_idx) = Inr (carry', ()) \<and>
         max_so_far carry' ! b ! q ! h ! 0 =
           fmaximum (max_so_far carry ! b ! q ! h ! 0) (max_row (scores ! b ! q ! h)) \<and>
         (\<forall>xs. max_so_far carry ! b ! q ! h ! 0 = NegInf \<and> scores ! b ! q ! h = map Fin xs \<longrightarrow>
            max_so_far carry' ! b ! q ! h ! 0 = Fin (Max (set xs))))) \<and>
   processed_key_blocks True query_chunk_idx (length key) =
     [0..<min (Suc query_chunk_idx) (length key)] \<and>
   (query_chunk_idx < length key \<longrightarrow>
      query_chunk_idx \<in> set (processed_key_blocks True query_chunk_idx (length key))) \<and>
   (0 < length key \<longrightarrow> 0 \<in> set (processed_key_blocks True query_chunk_idx (length key))) \<and>
   map_sum id fst (scan (skip_upper_half True A chunk_bias_fn query_chunk query_chunk_idx) carry
     (zip key (zip value [0..<length key]))) =
   map_sum id fst (scan (summarize_chunk A chunk_bias_fn query_chunk query_chunk_idx) carry
     (map (\<lambda>ki. (key ! ki, value ! ki, ki)) (processed_key_blocks True query_chunk_idx (length key)))) \<and>
   query_chunk_attention True A chunk_bias_fn batch query_chunk_size num_heads dim_per_head
       key value (query_chunk, query_chunk_idx) =
     (case scan (summarize_chunk A chunk_bias_fn query_chunk query_chunk_idx)
             (init_carry batch query_chunk_size num_heads dim_per_head)
             (map (\<lambda>ki. (key ! ki, value ! ki, ki)) [0..<min (Suc query_chunk_idx) (length key)]) of
        Inl e \<Rightarrow> Inl e
      | Inr (carry, _) \<Rightarrow> Inr (broadcast4 (f_div A) (numerator carry) (denominator carry)))"
proof -
  have skip: "skip_block True query_chunk_idx key_chunk_idx \<longleftrightarrow> query_chunk_idx < key_chunk_idx"
    by (simp add: skip_block_def)
  have skipped: "query_chunk_idx < key_chunk_idx \<longrightarrow>
      skip_upper_half True A chunk_bias_fn query_chunk query_chunk_idx carry
        (key_chunk, value_chunk, key_chunk_idx) = Inr (carry, ())"
    by (simp add: skip_upper_half_def skip_block_def)
  have processed: "\<not> query_chunk_idx < key_chunk_idx \<longrightarrow>
      skip_upper_half True A chunk_bias_fn query_chunk query_chunk_idx carry
        (key_chunk, value_chunk, key_chunk_idx) =
      summarize_chunk A chunk_bias_fn query_chunk query_chunk_idx carry
        (key_chunk, value_chunk, key_chunk_idx)"
    by (simp add: skip_upper_half_def skip_block_def)
  have effect: "\<exists>carry'.
         skip_upper_half True A chunk_bias_fn query_chunk query_chunk_idx carry
           (key_chunk, value_chunk, key_chunk_idx) = Inr (carry', ()) \<and>
         max_so_far carry' ! b ! q ! h ! 0 =
           fmaximum (max_so_far carry ! b ! q ! h ! 0) (max_row (scores ! b ! q ! h)) \<and>
         (\<forall>xs. max_so_far carry ! b ! q ! h ! 0 = NegInf \<and> scores ! b ! q ! h = map Fin xs \<longrightarrow>
            max_so_far carry' ! b ! q ! h ! 0 = Fin (Max (set xs)))"
    if not_skipped: "\<not> query_chunk_idx < key_chunk_idx"
      and scores: "attn_scores A chunk_bias_fn query_chunk query_chunk_idx key_chunk key_chunk_idx
                     = Inr scores"
      and shapes: "has_shape4 scores n0 n1 n2 n3" "has_shape4 value_chunk n0 n3 n2 n4"
        "has_shape4 (numerator carry) n0 n1 n2 n4" "has_shape4 (denominator carry) n0 n1 n2 n5"
        "has_shape4 (max_so_far carry) n0 n1 n2 1"
      and keys: "0 < n3" and idx: "b < n0" "q < n1" "h < n2"
    for scores n0 n1 n2 n3 n4 n5 b q h
  proof -
    obtain carry' where
      step: "summarize_chunk A chunk_bias_fn query_chunk query_chunk_idx carry
               (key_chunk, value_chunk, key_chunk_idx) = Inr (carry', ())"
      and new_max: "max_so_far carry' ! b ! q ! h ! 0 =
               fmaximum (max_so_far carry ! b ! q ! h ! 0) (max_row (scores ! b ! q ! h))"
      using summarize_chunk_entries [OF scores shapes keys idx] by blast
    have "max_so_far carry' ! b ! q ! h ! 0 = Fin (Max (set xs))"
      if "max_so_far carry ! b ! q ! h ! 0 = NegInf" "scores ! b ! q ! h = map Fin xs" for xs
    proof -
      have "xs \<noteq> []"
        using that(2) has_shape4_nth(4) [OF shapes(1) idx] keys by auto
      then show ?thesis
        using that by (simp add: new_max max_row_finite)
    qed
    then show ?thesis
      using step new_max processed not_skipped by auto
  qed
  then have effect': "\<forall>scores n0 n1 n2 n3 n4 n5 b q h.
      \<not> query_chunk_idx < key_chunk_idx \<and>
      attn_scores A chunk_bias_fn query_chunk query_chunk_idx key_chunk key_chunk_idx = Inr scores \<and>
      has_shape4 scores n0 n1 n2 n3 \<and> has_shape4 value_chunk n0 n3 n2 n4 \<and>
      has_shape4 (numerator carry) n0 n1 n2 n4 \<and> has_shape4 (denominator carry) n0 n1 n2 n5 \<and>
      has_shape4 (max_so_far carry) n0 n1 n2 1 \<and> 0 < n3 \<and> b < n0 \<and> q < n1 \<and> h < n2 \<longrightarrow>
      (\<exists>carry'.
         skip_upper_half True A chunk_bias_fn query_chunk query_chunk_idx carry
           (key_chunk, value_chunk, key_chunk_idx) = Inr (carry', ()) \<and>
         max_so_far carry' ! b ! q ! h ! 0 =
           fmaximum (max_so_far carry ! b ! q ! h ! 0) (max_row (scores ! b ! q ! h)) \<and>
         (\<forall>xs. max_so_far carry ! b ! q ! h ! 0 = NegInf \<and> scores ! b ! q ! h = map Fin xs \<longrightarrow>
            max_so_far carry' ! b ! q ! h ! 0 = Fin (Max (set xs))))"
    by (intro allI impI) (elim conjE, rule effect)
  have blocks: "processed_key_blocks True query_chunk_idx (length key) =
                  [0..<min (Suc query_chunk_idx) (length key)]"
    by (rule processed_key_blocks_causal)
  have diagonal: "query_chunk_idx < length key \<longrightarrow>
      query_chunk_idx \<in> set (processed_key_blocks True query_chunk_idx (length key))"
    by (simp add: blocks)
  have first: "0 < length key \<longrightarrow>
      0 \<in> set (processed_key_blocks True query_chunk_idx (length key))"
    by (simp add: blocks)
  have scanned: "map_sum id fst (scan (skip_upper_half True A chunk_bias_fn query_chunk query_chunk_idx)
       c (zip key (zip value [0..<length key]))) =
     map_sum id fst (scan (summarize_chunk A chunk_bias_fn query_chunk query_chunk_idx) c
       (map (\<lambda>ki. (key ! ki, value ! ki, ki)) (processed_key_blocks True query_chunk_idx (length key))))"
    for c
    by (rule scan_processed_key_blocks [OF len])
  have quotient: "query_chunk_attention True A chunk_bias_fn batch query_chunk_size num_heads dim_per_head
       key value (query_chunk, query_chunk_idx) =
     (case scan (summarize_chunk A chunk_bias_fn query_chunk query_chunk_idx)
             (init_carry batch query_chunk_size num_heads dim_per_head)
             (map (\<lambda>ki. (key ! ki, value ! ki, ki)) [0..<min (Suc query_chunk_idx) (length key)]) of
        Inl e \<Rightarrow> Inl e
      | Inr (carry, _) \<Rightarrow> Inr (broadcast4 (f_div A) (numerator carry) (denominator carry)))"
    unfolding query_chunk_attention_def
    by (simp only: len prod.case if_False simp_thms final_carry_case scanned blocks)
  show ?thesis
    by (intro conjI) (rule skip skipped processed effect' blocks diagonal first scanned quotient)+
qed

text \<open>
  Two key blocks of two keys for a query of head dimension 1, in the arithmetic without
  rounding, with the scores \<^verbatim>\<open>0, ln 2\<close> and \<^verbatim>\<open>ln 4, 0\<close>: query block 0 skips key block
  1 and its output is that of key block 0 alone; query block 1 processes both.
\<close>

theorem causal_skip_policy_witness:
  "skip_block True 0 1 \<and>
   skip_upper_half True exact_arith (\<lambda>_ _. Inr [[[[Fin 0]]]]) [[[[Fin 1]]]] 0
     \<lparr> numerator = [[[[Fin (19 / 2)]]]], denominator = [[[[Fin (3 / 2)]]]],
       max_so_far = [[[[Fin (ln 2)]]]] \<rparr>
     ([[[[Fin (ln 4)]], [[Fin 0]]]], [[[[Fin 11]], [[Fin 13]]]], 1)
     = Inr (\<lparr> numerator = [[[[Fin (19 / 2)]]]], denominator = [[[[Fin (3 / 2)]]]],
              max_so_far = [[[[Fin (ln 2)]]]] \<rparr>, ()) \<and>
   (\<exists>carry'.
      skip_upper_half True exact_arith (\<lambda>_ _. Inr [[[[Fin 0]]]]) [[[[Fin 1]]]] 1 (init_carry 1 1 1 1)
        ([[[[Fin (ln 4)]], [[Fin 0]]]], [[[[Fin 11]], [[Fin 13]]]], 1) = Inr (carry', ()) \<and>
      max_so_far carry' ! 0 ! 0 ! 0 ! 0 = Fin (ln 4)) \<and>
   processed_key_blocks True 0 2 = [0] \<and> processed_key_blocks True 1 2 = [0, 1] \<and>
   query_chunk_attention True exact_arith (\<lambda>_ _. Inr [[[[Fin 0]]]]) 1 1 1 1
     [[[[[Fin 0]], [[Fin (ln 2)]]]], [[[[Fin (ln 4)]], [[Fin 0]]]]]
     [[[[[Fin 5]], [[Fin 7]]]], [[[[Fin 11]], [[Fin 13]]]]] ([[[[Fin 1]]]], 0)
     = Inr [[[[Fin (19 / 3)]]]] \<and>
   query_chunk_attention True exact_arith (\<lambda>_ _. Inr [[[[Fin 0]]]]) 1 1 1 1
     [[[[[Fin 0]], [[Fin (ln 2)]]]], [[[[Fin (ln 4)]], [[Fin 0]]]]]
     [[[[[Fin 5]], [[Fin 7]]]], [[[[Fin 11]], [[Fin 13]]]]] ([[[[Fin 1]]]], 1)
     = Inr [[[[Fin (19 / 2)]]]]"
proof -
  let ?f = "\<lambda>(_ :: nat) (_ :: nat). (Inr [[[[Fin 0]]]] :: error + fl tensor4)"
  let ?q = "[[[[Fin 1]]]]"
  let ?k0 = "[[[[Fin 0]], [[Fin (ln 2)]]]]" and ?v0 = "[[[[Fin 5]], [[Fin 7]]]]"
  let ?k1 = "[[[[Fin (ln 4)]], [[Fin 0]]]]" and ?v1 = "[[[[Fin 11]], [[Fin 13]]]]"
  let ?carry1 = "\<lparr> numerator = [[[[Fin (19 / 2)]]]], denominator = [[[[Fin (3 / 2)]]]],
                    max_so_far = [[[[Fin (ln 2)]]]] \<rparr>"
  let ?carry2 = "\<lparr> numerator = [[[[Fin 19]]]], denominator = [[[[Fin 2]]]],
                    max_so_far = [[[[Fin (ln 4)]]]] \<rparr>"
  note eval = summarize_chunk_def attn_scores_def
    einsum_bqhd_bkhd_def einsum_bqhv_bvhf_def moveaxis_1_2_def max_keepdims_def sum_keepdims_def
    broadcast4_def broadcast2_evals init_carry_def tab4_def dim1_def dim2_def upt_evals Let_def
    exact_arith_def ln_facts
  have len: "length [?v0, ?v1] = length [?k0, ?k1]"
    by simp
  have scores: "attn_scores exact_arith ?f ?q 1 ?k1 1 = Inr [[[[Fin (ln 4), Fin 0]]]]"
    by (simp add: eval)
  have shapes: "has_shape4 [[[[Fin (ln 4), Fin 0]]]] 1 1 1 2" "has_shape4 ?v1 1 2 1 1"
    "has_shape4 (numerator (init_carry 1 1 1 1)) 1 1 1 1"
    "has_shape4 (denominator (init_carry 1 1 1 1)) 1 1 1 1"
    "has_shape4 (max_so_far (init_carry 1 1 1 1)) 1 1 1 1"
    by (simp_all add: has_shape4_def init_carry_def tab4_def)
  have step0: "summarize_chunk exact_arith ?f ?q qi (init_carry 1 1 1 1) (?k0, ?v0, 0)
                 = Inr (?carry1, ())" for qi
    by (simp add: eval)
  have step1: "summarize_chunk exact_arith ?f ?q qi ?carry1 (?k1, ?v1, 1) = Inr (?carry2, ())" for qi
    by (simp add: eval)
  have two: "length [?k0, ?k1] = 2"
    by simp
  have range0: "[0..<min (Suc 0) 2] = [0]" and range1: "[0..<min (Suc 1) 2] = [0, 1]"
    by (simp_all add: upt_rec)
  note block0 = causal_skip_policy [OF len, where A = exact_arith and chunk_bias_fn = ?f
      and query_chunk = ?q and query_chunk_idx = 0 and key_chunk_idx = 1 and carry = ?carry1
      and key_chunk = ?k1 and value_chunk = ?v1 and batch = 1 and query_chunk_size = 1
      and num_heads = 1 and dim_per_head = 1, unfolded two range0]
  note block1 = causal_skip_policy [OF len, where A = exact_arith and chunk_bias_fn = ?f
      and query_chunk = ?q and query_chunk_idx = 1 and key_chunk_idx = 1
      and carry = "init_carry 1 1 1 1"
      and key_chunk = ?k1 and value_chunk = ?v1 and batch = 1 and query_chunk_size = 1
      and num_heads = 1 and dim_per_head = 1, unfolded two range1]
  have skip: "skip_block True 0 1"
    using block0 [THEN conjunct1] by simp
  have skipped: "skip_upper_half True exact_arith ?f ?q 0 ?carry1 (?k1, ?v1, 1) = Inr (?carry1, ())"
    using block0 [THEN conjunct2, THEN conjunct1] by simp
  have diagonal: "\<exists>carry'.
      skip_upper_half True exact_arith ?f ?q 1 (init_carry 1 1 1 1) (?k1, ?v1, 1) = Inr (carry', ()) \<and>
      max_so_far carry' ! 0 ! 0 ! 0 ! 0 = Fin (ln 4)"
  proof -
    have "\<exists>carry'.
         skip_upper_half True exact_arith ?f ?q 1 (init_carry 1 1 1 1) (?k1, ?v1, 1) = Inr (carry', ()) \<and>
         max_so_far carry' ! 0 ! 0 ! 0 ! 0 =
           fmaximum (max_so_far (init_carry 1 1 1 1) ! 0 ! 0 ! 0 ! 0)
             (max_row ([[[[Fin (ln 4), Fin 0]]]] ! 0 ! 0 ! 0)) \<and>
         (\<forall>xs. max_so_far (init_carry 1 1 1 1) ! 0 ! 0 ! 0 ! 0 = NegInf \<and>
               [[[[Fin (ln 4), Fin 0]]]] ! 0 ! 0 ! 0 = map Fin xs \<longrightarrow>
            max_so_far carry' ! 0 ! 0 ! 0 ! 0 = Fin (Max (set xs)))"
      using block1 [THEN conjunct2, THEN conjunct2, THEN conjunct2, THEN conjunct1, rule_format,
          of "[[[[Fin (ln 4), Fin 0]]]]" 1 1 1 2 1 1 0 0 0] scores shapes
      by simp
    then obtain carry' where
      "skip_upper_half True exact_arith ?f ?q 1 (init_carry 1 1 1 1) (?k1, ?v1, 1) = Inr (carry', ())"
      "\<forall>xs. max_so_far (init_carry 1 1 1 1) ! 0 ! 0 ! 0 ! 0 = NegInf \<and>
               [[[[Fin (ln 4), Fin 0]]]] ! 0 ! 0 ! 0 = map Fin xs \<longrightarrow>
            max_so_far carry' ! 0 ! 0 ! 0 ! 0 = Fin (Max (set xs))"
      by blast
    from this(1) this(2) [rule_format, of "[ln 4, 0]"] show ?thesis
      by (auto simp: init_carry_def tab4_def ln_facts)
  qed
  have blocks: "processed_key_blocks True 0 2 = [0]" "processed_key_blocks True 1 2 = [0, 1]"
    using block0 [THEN conjunct2, THEN conjunct2, THEN conjunct2, THEN conjunct2, THEN conjunct1]
      block1 [THEN conjunct2, THEN conjunct2, THEN conjunct2, THEN conjunct2, THEN conjunct1]
    by blast+
  have "query_chunk_attention True exact_arith ?f 1 1 1 1 [?k0, ?k1] [?v0, ?v1] (?q, 0)
          = Inr (broadcast4 (f_div exact_arith) [[[[Fin (19 / 2)]]]] [[[[Fin (3 / 2)]]]])"
    using block0 [THEN conjunct2, THEN conjunct2, THEN conjunct2, THEN conjunct2, THEN conjunct2,
        THEN conjunct2, THEN conjunct2, THEN conjunct2] step0 [of 0]
    by simp
  then have out0: "query_chunk_attention True exact_arith ?f 1 1 1 1 [?k0, ?k1] [?v0, ?v1] (?q, 0)
                = Inr [[[[Fin (19 / 3)]]]]"
    by (simp add: broadcast4_def broadcast2_evals exact_arith_def)
  have "query_chunk_attention True exact_arith ?f 1 1 1 1 [?k0, ?k1] [?v0, ?v1] (?q, 1)
          = Inr (broadcast4 (f_div exact_arith) [[[[Fin 19]]]] [[[[Fin 2]]]])"
    using block1 [THEN conjunct2, THEN conjunct2, THEN conjunct2, THEN conjunct2, THEN conjunct2,
        THEN conjunct2, THEN conjunct2, THEN conjunct2] step0 [of 1] step1 [of 1]
    by simp
  then have out1: "query_chunk_attention True exact_arith ?f 1 1 1 1 [?k0, ?k1] [?v0, ?v1] (?q, 1)
                = Inr [[[[Fin (19 / 2)]]]]"
    by (simp add: broadcast4_def broadcast2_evals exact_arith_def)
  show ?thesis
    using skip skipped diagonal blocks out0 out1 by blast
qed

text \<open>
  The claim as the specification words it has every query block process its diagonal pair.
  With two query blocks and one key block the code returns normally, and query block 1
  processes key block 0 only: it has no diagonal pair.
\<close>

theorem every_query_block_has_diagonal_counterexample:
  "blockwise_attn exact_arith [[[[Fin 0]], [[Fin 0]]]] [[[[Fin 0]]]] [[[[Fin 3]]]] (Some [[[[Fin 0]]]])
     True (\<lambda>_ _ _ _. False) 0 True 1 1 Float32 False = Inr [[[[Fin 3]], [[Fin 3]]]] \<and>
   processed_key_blocks True 1 1 = [0] \<and>
   1 \<notin> set (processed_key_blocks True 1 1)"
  by (simp add: attn_eval exact_eval processed_key_blocks_def del: finfo_min.simps)

section \<open>The loss aggregation\<close>

lemma nan_sum_Some: "nan_sum (map (\<lambda>x. Some (g x)) xs) = Some (sum_list (map g xs))"
  by (induction xs) (simp_all add: nan_sum_def nan_add_def)

lemma take_along_in_range:
  "0 \<le> t \<Longrightarrow> t < int (length row) \<Longrightarrow> take_along row t = Some (row ! nat t)"
  by (simp add: take_along_def Let_def)

lemma length_log_softmax: "length (log_softmax row) = length row"
  by (simp add: log_softmax_def)

lemma count_true_sum:
  "real (length (filter P xs)) = sum_list (map (\<lambda>x. if P x then 1 else 0) xs)"
  by (induction xs) simp_all

text \<open>
  \<^verbatim>\<open>jnp.argmax\<close> returns the first index that holds the greatest entry of the row, so it
  equals the target exactly when the target is top-1 correct.
\<close>

lemma argmax_less: "row \<noteq> [] \<Longrightarrow> argmax row < length row"
proof (induction row)
  case Nil
  then show ?case by simp
next
  case (Cons x xs)
  show ?case
  proof (cases "list_all (\<lambda>y. y \<le> x) xs")
    case True
    then show ?thesis by simp
  next
    case False
    then have "xs \<noteq> []" by auto
    then show ?thesis
      using False Cons.IH by simp
  qed
qed

lemma argmax_greatest: "i < length row \<Longrightarrow> row ! i \<le> row ! argmax row"
proof (induction row arbitrary: i)
  case Nil
  then show ?case by simp
next
  case (Cons x xs)
  show ?case
  proof (cases "list_all (\<lambda>y. y \<le> x) xs")
    case True
    then show ?thesis
      using Cons.prems by (cases i) (simp_all add: list_all_length)
  next
    case False
    then obtain j where j: "j < length xs" "x < xs ! j"
      by (auto simp: list_all_length not_le)
    have "x < xs ! argmax xs"
      using j Cons.IH [of j] by simp
    then show ?thesis
      using False Cons.prems Cons.IH by (cases i) simp_all
  qed
qed

lemma argmax_first: "i < argmax row \<Longrightarrow> row ! i < row ! argmax row"
proof (induction row arbitrary: i)
  case Nil
  then show ?case by simp
next
  case (Cons x xs)
  show ?case
  proof (cases "list_all (\<lambda>y. y \<le> x) xs")
    case True
    then show ?thesis
      using Cons.prems by simp
  next
    case False
    then obtain j where j: "j < length xs" "x < xs ! j"
      by (auto simp: list_all_length not_le)
    have "x < xs ! argmax xs"
      using j argmax_greatest [of j xs] by simp
    then show ?thesis
      using False Cons.prems Cons.IH by (cases i) simp_all
  qed
qed

lemma argmax_top1:
  assumes "row \<noteq> []"
  shows "int (argmax row) = t \<longleftrightarrow> top1_correct row t"
proof
  assume "int (argmax row) = t"
  then have t: "t = int (argmax row)" by simp
  show "top1_correct row t"
    using argmax_less [OF assms] argmax_greatest [of _ row] argmax_first [of _ row]
    by (simp add: top1_correct_def t list_all_iff)
next
  assume top1: "top1_correct row t"
  define k where "k = nat t"
  have k: "k < length row" "\<forall>i < length row. row ! i \<le> row ! k" "\<forall>i < k. row ! i < row ! k"
    and t: "t = int k"
    using top1 by (auto simp: top1_correct_def k_def list_all_iff)
  have "\<not> k < argmax row"
    using argmax_first [of k row] k(2) argmax_less [OF assms] by fastforce
  moreover have "\<not> argmax row < k"
    using argmax_greatest [OF k(1)] k(3) by fastforce
  ultimately show "int (argmax row) = t"
    by (simp add: t)
qed

text \<open>What \<^verbatim>\<open>loss_acc\<close> returns on a block whose three parts have the same length.\<close>

lemma loss_acc_block:
  assumes len: "length logits = length valid" "length tokens = length valid"
    and vocab: "\<forall>row \<in> set logits. row \<noteq> []"
  shows "\<exists>token_log_prob correct.
           loss_acc logits tokens valid = Inr (token_log_prob, correct, block_valid_count valid) \<and>
           token_log_prob =
             map (\<lambda>j. if valid ! j > 0 then take_along (log_softmax (logits ! j)) (tokens ! j)
                       else Some 0) [0..<length valid] \<and>
           real (length (filter id correct)) / block_valid_count valid =
             block_accuracy_contribution logits tokens valid"
proof -
  let ?n = "length valid"
  have tlp: "map2 (\<lambda>v lp. if v > 0 then lp else Some 0) valid
               (map2 (\<lambda>row t. take_along (log_softmax row) t) logits tokens) =
             map (\<lambda>j. if valid ! j > 0 then take_along (log_softmax (logits ! j)) (tokens ! j)
                       else Some 0) [0..<?n]"
    using len by (intro nth_equalityI) simp_all
  have correct: "map2 (\<lambda>v c. if v > 0 then c else False) valid
               (map2 (\<lambda>row t. int (argmax row) = t) logits tokens) =
             map (\<lambda>j. valid ! j > 0 \<and> int (argmax (logits ! j)) = tokens ! j) [0..<?n]"
    using len by (intro nth_equalityI) simp_all
  have top1: "map (\<lambda>j. valid ! j > 0 \<and> int (argmax (logits ! j)) = tokens ! j) [0..<?n] =
              map (\<lambda>j. valid ! j > 0 \<and> top1_correct (logits ! j) (tokens ! j)) [0..<?n]"
    using vocab len(1) by (intro map_cong refl) (simp add: argmax_top1)
  have count: "real (length (filter
                 (\<lambda>j. valid ! j > 0 \<and> top1_correct (logits ! j) (tokens ! j)) [0..<?n])) =
               sum_list (map (\<lambda>j. if valid ! j > 0 \<and> top1_correct (logits ! j) (tokens ! j)
                                    then 1 else 0) [0..<?n])"
    by (rule count_true_sum)
  show ?thesis
    using vocab
    by (simp add: loss_acc_def Let_def list_ex_iff tlp correct top1 count
        block_accuracy_contribution_def block_valid_count_def)
qed

lemma block_loss_in_range:
  assumes in_range: "\<forall>j < length valid. valid ! j > 0 \<longrightarrow>
                       0 \<le> tokens ! j \<and> tokens ! j < int (length (logits ! j))"
  shows "map_option (\<lambda>s. s / block_valid_count valid)
           (nan_sum (map (\<lambda>j. if valid ! j > 0 then take_along (log_softmax (logits ! j)) (tokens ! j)
                               else Some 0) [0..<length valid])) =
         Some (block_loss_contribution logits tokens valid)"
proof -
  have masked: "map (\<lambda>j. if valid ! j > 0 then take_along (log_softmax (logits ! j)) (tokens ! j)
                  else Some 0) [0..<length valid] =
        map (\<lambda>j. Some (if valid ! j > 0 then target_log_prob (logits ! j) (tokens ! j) else 0))
          [0..<length valid]"
    using in_range
    by (intro map_cong refl)
       (auto simp: take_along_in_range length_log_softmax log_softmax_def target_log_prob_def)
  show ?thesis
    unfolding masked by (simp add: nan_sum_Some block_loss_contribution_def)
qed

text \<open>One step of the fold on a well-shaped block.\<close>

lemma loss_and_accuracy_step:
  assumes len: "length logits = length valid" "length tokens = length valid"
    and vocab: "\<forall>row \<in> set logits. row \<noteq> []"
  shows "\<exists>loss'. loss_and_accuracy (loss, accuracy, num) (logits, tokens, valid) =
           Inr ((loss', accuracy + block_accuracy_contribution logits tokens valid, num + 1), ()) \<and>
           ((\<forall>j < length valid. valid ! j > 0 \<longrightarrow>
               0 \<le> tokens ! j \<and> tokens ! j < int (length (logits ! j))) \<longrightarrow>
            (\<forall>l. loss = Some l \<longrightarrow>
               loss' = Some (l + block_loss_contribution logits tokens valid)))"
proof -
  obtain token_log_prob correct where
    block: "loss_acc logits tokens valid = Inr (token_log_prob, correct, block_valid_count valid)"
    and tlp: "token_log_prob =
             map (\<lambda>j. if valid ! j > 0 then take_along (log_softmax (logits ! j)) (tokens ! j)
                       else Some 0) [0..<length valid]"
    and acc: "real (length (filter id correct)) / block_valid_count valid =
             block_accuracy_contribution logits tokens valid"
    using loss_acc_block [OF len vocab] by blast
  let ?loss' = "nan_add loss (map_option (\<lambda>s. s / block_valid_count valid) (nan_sum token_log_prob))"
  have step: "loss_and_accuracy (loss, accuracy, num) (logits, tokens, valid) =
           Inr ((?loss', accuracy + block_accuracy_contribution logits tokens valid, num + 1), ())"
    using acc by (simp add: loss_and_accuracy_def block)
  have "?loss' = Some (l + block_loss_contribution logits tokens valid)"
    if "\<forall>j < length valid. valid ! j > 0 \<longrightarrow>
               0 \<le> tokens ! j \<and> tokens ! j < int (length (logits ! j))"
      and "loss = Some l" for l
    using block_loss_in_range [OF that(1)] that(2) by (auto simp: tlp nan_add_def)
  with step show ?thesis
    by (intro exI [of _ ?loss']) simp
qed

text \<open>
  The fold over the blocks: the accuracy sum and the block count for all well-shaped
  blocks, the loss sum when the targets at the valid positions are in range.
\<close>

lemma scan_accuracy:
  assumes "\<forall>x \<in> set xs. length (fst x) = length (snd (snd x)) \<and>
             length (fst (snd x)) = length (snd (snd x)) \<and> (\<forall>row \<in> set (fst x). row \<noteq> [])"
  shows "\<exists>loss' us.
           scan loss_and_accuracy (loss, accuracy, num) xs =
             Inr ((loss',
                   accuracy + sum_list (map (\<lambda>x. block_accuracy_contribution (fst x) (fst (snd x))
                                                  (snd (snd x))) xs),
                   num + length xs), us)"
  using assms
proof (induction xs arbitrary: loss accuracy num)
  case Nil
  then show ?case by simp
next
  case (Cons x xs)
  obtain logits tokens valid where x: "x = (logits, tokens, valid)"
    by (cases x) auto
  have wf: "length logits = length valid" "length tokens = length valid"
    "\<forall>row \<in> set logits. row \<noteq> []"
    using Cons.prems by (simp_all add: x)
  obtain loss1 where
    step: "loss_and_accuracy (loss, accuracy, num) x =
             Inr ((loss1, accuracy + block_accuracy_contribution logits tokens valid, num + 1), ())"
    using loss_and_accuracy_step [OF wf, of loss accuracy num] unfolding x by blast
  have rest: "\<forall>x \<in> set xs. length (fst x) = length (snd (snd x)) \<and>
             length (fst (snd x)) = length (snd (snd x)) \<and> (\<forall>row \<in> set (fst x). row \<noteq> [])"
    using Cons.prems by simp
  from Cons.IH [OF rest, of loss1 "accuracy + block_accuracy_contribution logits tokens valid"
      "num + 1"]
  obtain loss' us where
    "scan loss_and_accuracy
       (loss1, accuracy + block_accuracy_contribution logits tokens valid, num + 1) xs =
     Inr ((loss',
           accuracy + block_accuracy_contribution logits tokens valid +
             sum_list (map (\<lambda>x. block_accuracy_contribution (fst x) (fst (snd x)) (snd (snd x))) xs),
           num + 1 + length xs), us)"
    by blast
  then have "scan loss_and_accuracy (loss, accuracy, num) (x # xs) =
           Inr ((loss',
                 accuracy + sum_list (map (\<lambda>x. block_accuracy_contribution (fst x) (fst (snd x))
                                                (snd (snd x))) (x # xs)),
                 num + length (x # xs)), () # us)"
    by (simp add: step) (simp add: x add.assoc)
  then show ?case by blast
qed

lemma scan_loss:
  assumes "\<forall>x \<in> set xs. length (fst x) = length (snd (snd x)) \<and>
             length (fst (snd x)) = length (snd (snd x)) \<and> (\<forall>row \<in> set (fst x). row \<noteq> [])"
    and "\<forall>x \<in> set xs. \<forall>j < length (snd (snd x)). snd (snd x) ! j > 0 \<longrightarrow>
             0 \<le> fst (snd x) ! j \<and> fst (snd x) ! j < int (length (fst x ! j))"
  shows "\<exists>us.
           scan loss_and_accuracy (Some l, accuracy, num) xs =
             Inr ((Some (l + sum_list (map (\<lambda>x. block_loss_contribution (fst x) (fst (snd x))
                                                  (snd (snd x))) xs)),
                   accuracy + sum_list (map (\<lambda>x. block_accuracy_contribution (fst x) (fst (snd x))
                                                  (snd (snd x))) xs),
                   num + length xs), us)"
  using assms
proof (induction xs arbitrary: l accuracy num)
  case Nil
  then show ?case by simp
next
  case (Cons x xs)
  obtain logits tokens valid where x: "x = (logits, tokens, valid)"
    by (cases x) auto
  have wf: "length logits = length valid" "length tokens = length valid"
    "\<forall>row \<in> set logits. row \<noteq> []"
    using Cons.prems(1) by (simp_all add: x)
  have in_range: "\<forall>j < length valid. valid ! j > 0 \<longrightarrow>
               0 \<le> tokens ! j \<and> tokens ! j < int (length (logits ! j))"
    using Cons.prems(2) by (simp add: x)
  have step: "loss_and_accuracy (Some l, accuracy, num) x =
             Inr ((Some (l + block_loss_contribution logits tokens valid),
                   accuracy + block_accuracy_contribution logits tokens valid, num + 1), ())"
    using loss_and_accuracy_step [OF wf, of "Some l" accuracy num] in_range unfolding x by auto
  have rest: "\<forall>x \<in> set xs. length (fst x) = length (snd (snd x)) \<and>
             length (fst (snd x)) = length (snd (snd x)) \<and> (\<forall>row \<in> set (fst x). row \<noteq> [])"
    "\<forall>x \<in> set xs. \<forall>j < length (snd (snd x)). snd (snd x) ! j > 0 \<longrightarrow>
             0 \<le> fst (snd x) ! j \<and> fst (snd x) ! j < int (length (fst x ! j))"
    using Cons.prems by simp_all
  from Cons.IH [OF rest, of "l + block_loss_contribution logits tokens valid"
      "accuracy + block_accuracy_contribution logits tokens valid" "num + 1"]
  obtain us where
    "scan loss_and_accuracy
       (Some (l + block_loss_contribution logits tokens valid),
        accuracy + block_accuracy_contribution logits tokens valid, num + 1) xs =
     Inr ((Some (l + block_loss_contribution logits tokens valid +
             sum_list (map (\<lambda>x. block_loss_contribution (fst x) (fst (snd x)) (snd (snd x))) xs)),
           accuracy + block_accuracy_contribution logits tokens valid +
             sum_list (map (\<lambda>x. block_accuracy_contribution (fst x) (fst (snd x)) (snd (snd x))) xs),
           num + 1 + length xs), us)"
    by blast
  then have "scan loss_and_accuracy (Some l, accuracy, num) (x # xs) =
           Inr ((Some (l + sum_list (map (\<lambda>x. block_loss_contribution (fst x) (fst (snd x))
                                                (snd (snd x))) (x # xs))),
                 accuracy + sum_list (map (\<lambda>x. block_accuracy_contribution (fst x) (fst (snd x))
                                                (snd (snd x))) (x # xs)),
                 num + length (x # xs)), () # us)"
    by (simp add: step) (simp add: x add.assoc)
  then show ?case by blast
qed

lemma rearrange_blocks_multiple:
  assumes "0 < c" and "length xs = n * c"
  shows "rearrange_blocks c xs = Inr (map (\<lambda>i. take c (drop (i * c) xs)) [0..<n])"
  using assms by (simp add: rearrange_blocks_def)

lemma block_length:
  assumes "length xs = n * c" and "i < n"
  shows "length (take c (drop (i * c) xs)) = c"
proof -
  have "i * c + c \<le> n * c"
    using assms(2) by (metis Suc_leI mult_Suc mult_le_mono1 add.commute)
  then show ?thesis
    using assms(1) by simp
qed

lemma block_nth:
  assumes "length xs = n * c" and "i < n" and "j < c"
  shows "take c (drop (i * c) xs) ! j = xs ! (i * c + j)" and "i * c + j < n * c"
proof -
  show "i * c + j < n * c"
    using assms(2,3) by (rule strided_index_less)
  then show "take c (drop (i * c) xs) ! j = xs ! (i * c + j)"
    using assms by simp
qed

lemma zip3_blocks:
  "zip (map f [0..<n]) (zip (map g [0..<n]) (map h [0..<n])) = map (\<lambda>i. (f i, g i, h i)) [0..<n]"
  by (intro nth_equalityI) simp_all

text \<open>
  Claim C7. Let the flattened logits, targets and validity mask (all ones when the mask is
  absent) have the length of \<^verbatim>\<open>n\<close> blocks, let every row of logits be non-empty and let
  the targets at the valid positions be in the vocabulary. Then
  \<^verbatim>\<open>blockwise_cross_entropy\<close> returns NaN twice when there is no block, and otherwise
  minus the sum of the blocks' loss contributions divided by the number of blocks, and the
  sum of the blocks' accuracy contributions divided by the number of blocks; a
  contribution is the masked sum of the block divided by its valid count floored at
  \<^verbatim>\<open>1e-10\<close>.
\<close>

theorem blockwise_cross_entropy_aggregation:
  assumes c: "0 < chunk_size"
    and flat: "flat_logits = concat logits" "flat_tokens = concat tokens"
      "flat_valid = concat (case valid of None \<Rightarrow> map (map (\<lambda>_. 1)) tokens | Some v \<Rightarrow> v)"
    and lens: "length flat_logits = n * chunk_size" "length flat_tokens = n * chunk_size"
      "length flat_valid = n * chunk_size"
    and vocab: "\<forall>row \<in> set flat_logits. row \<noteq> []"
    and in_range: "\<forall>j < n * chunk_size. flat_valid ! j > 0 \<longrightarrow>
                     0 \<le> flat_tokens ! j \<and> flat_tokens ! j < int (length (flat_logits ! j))"
  shows "blockwise_cross_entropy logits tokens chunk_size valid =
           Inr (if n = 0 then (None, None)
                else (Some (- (\<Sum>i < n. block_loss_contribution
                                  (take chunk_size (drop (i * chunk_size) flat_logits))
                                  (take chunk_size (drop (i * chunk_size) flat_tokens))
                                  (take chunk_size (drop (i * chunk_size) flat_valid))) / real n),
                      Some ((\<Sum>i < n. block_accuracy_contribution
                                  (take chunk_size (drop (i * chunk_size) flat_logits))
                                  (take chunk_size (drop (i * chunk_size) flat_tokens))
                                  (take chunk_size (drop (i * chunk_size) flat_valid))) / real n)))"
proof -
  let ?L = "\<lambda>i. take chunk_size (drop (i * chunk_size) flat_logits)"
  let ?T = "\<lambda>i. take chunk_size (drop (i * chunk_size) flat_tokens)"
  let ?V = "\<lambda>i. take chunk_size (drop (i * chunk_size) flat_valid)"
  let ?xs = "map (\<lambda>i. (?L i, ?T i, ?V i)) [0..<n]"
  have wf: "\<forall>x \<in> set ?xs. length (fst x) = length (snd (snd x)) \<and>
             length (fst (snd x)) = length (snd (snd x)) \<and> (\<forall>row \<in> set (fst x). row \<noteq> [])"
  proof
    fix x
    assume "x \<in> set ?xs"
    then obtain i where i: "i < n" and x: "x = (?L i, ?T i, ?V i)"
      by auto
    have "\<forall>row \<in> set (?L i). row \<noteq> []"
      using vocab by (meson in_set_dropD in_set_takeD)
    then show "length (fst x) = length (snd (snd x)) \<and>
             length (fst (snd x)) = length (snd (snd x)) \<and> (\<forall>row \<in> set (fst x). row \<noteq> [])"
      using block_length [OF lens(1) i] block_length [OF lens(2) i] block_length [OF lens(3) i]
      by (simp add: x)
  qed
  have rng: "\<forall>x \<in> set ?xs. \<forall>j < length (snd (snd x)). snd (snd x) ! j > 0 \<longrightarrow>
             0 \<le> fst (snd x) ! j \<and> fst (snd x) ! j < int (length (fst x ! j))"
  proof (intro ballI allI impI)
    fix x j
    assume "x \<in> set ?xs" and j: "j < length (snd (snd x))" and v: "0 < snd (snd x) ! j"
    then obtain i where i: "i < n" and x: "x = (?L i, ?T i, ?V i)"
      by auto
    have jc: "j < chunk_size"
      using j block_length [OF lens(3) i] by (simp add: x)
    note nth = block_nth [OF lens(1) i jc] block_nth [OF lens(2) i jc] block_nth [OF lens(3) i jc]
    have "0 < flat_valid ! (i * chunk_size + j)"
      using v nth(5) by (simp add: x del: nth_take nth_drop)
    then have "0 \<le> flat_tokens ! (i * chunk_size + j) \<and>
               flat_tokens ! (i * chunk_size + j) < int (length (flat_logits ! (i * chunk_size + j)))"
      using in_range nth(2) by simp
    then show "0 \<le> fst (snd x) ! j \<and> fst (snd x) ! j < int (length (fst x ! j))"
      using nth(1,3) by (simp add: x del: nth_take nth_drop)
  qed
  obtain us where
    scan: "scan loss_and_accuracy (Some 0, 0, 0) ?xs =
             Inr ((Some (0 + sum_list (map (\<lambda>x. block_loss_contribution (fst x) (fst (snd x))
                                               (snd (snd x))) ?xs)),
                   0 + sum_list (map (\<lambda>x. block_accuracy_contribution (fst x) (fst (snd x))
                                               (snd (snd x))) ?xs),
                   0 + length ?xs), us)"
    using scan_loss [OF wf rng, of 0 0 0] by blast
  have sums:
    "sum_list (map (\<lambda>x. block_loss_contribution (fst x) (fst (snd x)) (snd (snd x))) ?xs) =
       (\<Sum>i < n. block_loss_contribution (?L i) (?T i) (?V i))"
    "sum_list (map (\<lambda>x. block_accuracy_contribution (fst x) (fst (snd x)) (snd (snd x))) ?xs) =
       (\<Sum>i < n. block_accuracy_contribution (?L i) (?T i) (?V i))"
    by (simp_all add: o_def interv_sum_list_conv_sum_set_nat atLeast0LessThan)
  have folded: "scan loss_and_accuracy (Some 0, 0, 0) ?xs =
             Inr ((Some (\<Sum>i < n. block_loss_contribution (?L i) (?T i) (?V i)),
                   (\<Sum>i < n. block_accuracy_contribution (?L i) (?T i) (?V i)), n), us)"
    using scan unfolding sums by simp
  have split: "rearrange_blocks chunk_size (concat logits) = Inr (map ?L [0..<n])"
    "rearrange_blocks chunk_size (concat tokens) = Inr (map ?T [0..<n])"
    "rearrange_blocks chunk_size
       (concat (case valid of None \<Rightarrow> map (map (\<lambda>_. 1)) tokens | Some v \<Rightarrow> v)) =
     Inr (map ?V [0..<n])"
    using rearrange_blocks_multiple [OF c lens(1)] rearrange_blocks_multiple [OF c lens(2)]
      rearrange_blocks_multiple [OF c lens(3)]
    by (simp_all add: flat)
  show ?thesis
    by (simp add: blockwise_cross_entropy_def Let_def split zip3_blocks folded)
qed

text \<open>
  Three blocks of two positions over a vocabulary of two. In the first block both positions
  are valid and only the first target is top-1 correct; in the second block both targets
  are top-1 correct and only the first position is valid; the third block has no valid
  position and contributes 0 through the floor.
\<close>

theorem blockwise_cross_entropy_aggregation_witness:
  "blockwise_cross_entropy
     [[[0, ln 2], [ln 2, 0]], [[ln 2, 0], [0, ln 2]], [[0, 0], [0, 0]]]
     [[1, 1], [0, 1], [0, 1]] 2 (Some [[1, 1], [1, 0], [0, 0]])
   = Inr (Some ((4 * ln 3 - 3 * ln 2) / 6), Some (1 / 2))"
proof -
  let ?logits = "[[0, ln 2], [ln 2, 0], [ln 2, 0], [0, ln 2], [0, 0], [0, 0 :: real]]"
  let ?tokens = "[1, 1, 0, 1, 0, 1 :: int]"
  let ?valid = "[1, 1, 1, 0, 0, 0 :: real]"
  have c: "0 < (2 :: nat)"
    by simp
  have flat: "?logits = concat [[[0, ln 2], [ln 2, 0]], [[ln 2, 0], [0, ln 2]], [[0, 0], [0, 0]]]"
    "?tokens = concat [[1, 1], [0, 1], [0, 1]]"
    "?valid = concat (case Some [[1, 1], [1, 0], [0, 0]] of
                        None \<Rightarrow> map (map (\<lambda>_. 1)) [[1, 1], [0, 1], [0, 1 :: int]] | Some v \<Rightarrow> v)"
    by simp_all
  have lens: "length ?logits = 3 * 2" "length ?tokens = 3 * 2" "length ?valid = 3 * 2"
    by simp_all
  have vocab: "\<forall>row \<in> set ?logits. row \<noteq> []"
    by simp
  have in_range: "\<forall>j < 3 * 2. ?valid ! j > 0 \<longrightarrow>
                    0 \<le> ?tokens ! j \<and> ?tokens ! j < int (length (?logits ! j))"
    by (simp add: less_Suc_eq numeral_eq_Suc)
  have blocks: "{..<3 :: nat} = {0, 1, 2}"
    by auto
  have logs: "ln (3 :: real) \<noteq> 0" "exp (ln 2) = (2 :: real)"
    by simp_all
  have loss: "block_loss_contribution [[0, ln 2], [ln 2, 0]] [1, 1] [1, 1] = (ln 2 - 2 * ln 3) / 2"
    "block_loss_contribution [[ln 2, 0], [0, ln 2]] [0, 1] [1, 0] = ln 2 - ln 3"
    "block_loss_contribution [[0, 0], [0, 0]] [0, 1] [0, 0] = 0"
    by (simp_all add: block_loss_contribution_def block_valid_count_def target_log_prob_def
        upt_evals)
  have accuracy: "block_accuracy_contribution [[0, ln 2], [ln 2, 0]] [1, 1] [1, 1] = 1 / 2"
    "block_accuracy_contribution [[ln 2, 0], [0, ln 2]] [0, 1] [1, 0] = 1"
    "block_accuracy_contribution [[0, 0], [0, 0]] [0, 1] [0, 0] = 0"
    by (simp_all add: block_accuracy_contribution_def block_valid_count_def top1_correct_def
        upt_evals)
  show ?thesis
    using blockwise_cross_entropy_aggregation [OF c flat lens vocab in_range]
    by (simp add: blocks loss accuracy field_simps)
qed

lemma block_valid_count_pos: "0 < block_valid_count valid"
  by (simp add: block_valid_count_def max_def)

lemma block_accuracy_bounds:
  assumes binary: "\<forall>x \<in> set valid. x = 0 \<or> x = 1"
  shows "0 \<le> block_accuracy_contribution logits tokens valid"
    and "block_accuracy_contribution logits tokens valid \<le> 1"
    and "(\<forall>x \<in> set valid. x = 0) \<Longrightarrow> block_accuracy_contribution logits tokens valid = 0"
proof -
  let ?hit = "\<lambda>j. if valid ! j > 0 \<and> top1_correct (logits ! j) (tokens ! j) then 1 else 0 :: real"
  let ?count = "sum_list (map ?hit [0..<length valid])"
  have nonneg: "0 \<le> ?count"
    by (rule sum_list_nonneg) auto
  have "?count \<le> sum_list (map (\<lambda>j. valid ! j) [0..<length valid])"
    using binary by (intro sum_list_mono) (auto simp: all_set_conv_all_nth)
  also have "\<dots> = sum_list valid"
    by (simp add: map_nth)
  also have "\<dots> \<le> block_valid_count valid"
    by (simp add: block_valid_count_def)
  finally have le: "?count \<le> block_valid_count valid" .
  show "0 \<le> block_accuracy_contribution logits tokens valid"
    using nonneg block_valid_count_pos [of valid]
    by (simp add: block_accuracy_contribution_def)
  show "block_accuracy_contribution logits tokens valid \<le> 1"
    using le block_valid_count_pos [of valid]
    by (simp add: block_accuracy_contribution_def)
  show "block_accuracy_contribution logits tokens valid = 0" if "\<forall>x \<in> set valid. x = 0"
  proof -
    have none: "map ?hit [0..<length valid] = map (\<lambda>_. 0) [0..<length valid]"
      using that by (intro map_cong refl) (simp add: all_set_conv_all_nth)
    show ?thesis
      unfolding block_accuracy_contribution_def none by simp
  qed
qed

text \<open>
  Claim C10. Let the input have at least one block, all rows of logits non-empty, and a
  validity mask whose entries are 0 or 1 (or no mask). Then \<^verbatim>\<open>blockwise_cross_entropy\<close>
  returns an accuracy between 0 and 1. It is the mean of the blocks' contributions, each of
  which lies between 0 and 1, and a block without a valid position contributes 0.
\<close>

theorem blockwise_cross_entropy_accuracy_bounds:
  assumes c: "0 < chunk_size" and blocks: "0 < n"
    and flat: "flat_logits = concat logits" "flat_tokens = concat tokens"
      "flat_valid = concat (case valid of None \<Rightarrow> map (map (\<lambda>_. 1)) tokens | Some v \<Rightarrow> v)"
    and lens: "length flat_logits = n * chunk_size" "length flat_tokens = n * chunk_size"
      "length flat_valid = n * chunk_size"
    and vocab: "\<forall>row \<in> set flat_logits. row \<noteq> []"
    and binary: "\<forall>x \<in> set flat_valid. x = 0 \<or> x = 1"
  shows "(\<exists>loss accuracy.
            blockwise_cross_entropy logits tokens chunk_size valid = Inr (loss, Some accuracy) \<and>
            0 \<le> accuracy \<and> accuracy \<le> 1) \<and>
         (\<forall>i < n.
            0 \<le> block_accuracy_contribution
                   (take chunk_size (drop (i * chunk_size) flat_logits))
                   (take chunk_size (drop (i * chunk_size) flat_tokens))
                   (take chunk_size (drop (i * chunk_size) flat_valid)) \<and>
            block_accuracy_contribution
                   (take chunk_size (drop (i * chunk_size) flat_logits))
                   (take chunk_size (drop (i * chunk_size) flat_tokens))
                   (take chunk_size (drop (i * chunk_size) flat_valid)) \<le> 1 \<and>
            ((\<forall>x \<in> set (take chunk_size (drop (i * chunk_size) flat_valid)). x = 0) \<longrightarrow>
             block_accuracy_contribution
                   (take chunk_size (drop (i * chunk_size) flat_logits))
                   (take chunk_size (drop (i * chunk_size) flat_tokens))
                   (take chunk_size (drop (i * chunk_size) flat_valid)) = 0))"
proof -
  let ?L = "\<lambda>i. take chunk_size (drop (i * chunk_size) flat_logits)"
  let ?T = "\<lambda>i. take chunk_size (drop (i * chunk_size) flat_tokens)"
  let ?V = "\<lambda>i. take chunk_size (drop (i * chunk_size) flat_valid)"
  let ?xs = "map (\<lambda>i. (?L i, ?T i, ?V i)) [0..<n]"
  let ?acc = "\<lambda>i. block_accuracy_contribution (?L i) (?T i) (?V i)"
  have wf: "\<forall>x \<in> set ?xs. length (fst x) = length (snd (snd x)) \<and>
             length (fst (snd x)) = length (snd (snd x)) \<and> (\<forall>row \<in> set (fst x). row \<noteq> [])"
  proof
    fix x
    assume "x \<in> set ?xs"
    then obtain i where i: "i < n" and x: "x = (?L i, ?T i, ?V i)"
      by auto
    have "\<forall>row \<in> set (?L i). row \<noteq> []"
      using vocab by (meson in_set_dropD in_set_takeD)
    then show "length (fst x) = length (snd (snd x)) \<and>
             length (fst (snd x)) = length (snd (snd x)) \<and> (\<forall>row \<in> set (fst x). row \<noteq> [])"
      using block_length [OF lens(1) i] block_length [OF lens(2) i] block_length [OF lens(3) i]
      by (simp add: x)
  qed
  have block_binary: "\<forall>x \<in> set (?V i). x = 0 \<or> x = 1" for i
    using binary by (meson in_set_dropD in_set_takeD)
  note bounds = block_accuracy_bounds [OF block_binary]
  obtain loss' us where
    scan: "scan loss_and_accuracy (Some 0, 0, 0) ?xs =
             Inr ((loss', 0 + sum_list (map (\<lambda>x. block_accuracy_contribution (fst x) (fst (snd x))
                                               (snd (snd x))) ?xs),
                   0 + length ?xs), us)"
    using scan_accuracy [OF wf, of "Some 0" 0 0] by blast
  have sum: "sum_list (map (\<lambda>x. block_accuracy_contribution (fst x) (fst (snd x)) (snd (snd x))) ?xs)
               = (\<Sum>i < n. ?acc i)"
    by (simp add: o_def interv_sum_list_conv_sum_set_nat atLeast0LessThan)
  have folded: "scan loss_and_accuracy (Some 0, 0, 0) ?xs = Inr ((loss', (\<Sum>i < n. ?acc i), n), us)"
    using scan unfolding sum by simp
  have split: "rearrange_blocks chunk_size (concat logits) = Inr (map ?L [0..<n])"
    "rearrange_blocks chunk_size (concat tokens) = Inr (map ?T [0..<n])"
    "rearrange_blocks chunk_size
       (concat (case valid of None \<Rightarrow> map (map (\<lambda>_. 1)) tokens | Some v \<Rightarrow> v)) =
     Inr (map ?V [0..<n])"
    using rearrange_blocks_multiple [OF c lens(1)] rearrange_blocks_multiple [OF c lens(2)]
      rearrange_blocks_multiple [OF c lens(3)]
    by (simp_all add: flat)
  have result: "blockwise_cross_entropy logits tokens chunk_size valid =
                  Inr (map_option (\<lambda>l. - l / real n) loss', Some ((\<Sum>i < n. ?acc i) / real n))"
    using blocks by (simp add: blockwise_cross_entropy_def Let_def split zip3_blocks folded)
  have lower: "0 \<le> (\<Sum>i < n. ?acc i)"
    by (intro sum_nonneg) (simp add: bounds(1))
  have "(\<Sum>i < n. ?acc i) \<le> (\<Sum>i < n. 1)"
    by (intro sum_mono) (simp add: bounds(2))
  then have upper: "(\<Sum>i < n. ?acc i) \<le> real n"
    by simp
  have mean: "0 \<le> (\<Sum>i < n. ?acc i) / real n" "(\<Sum>i < n. ?acc i) / real n \<le> 1"
    using lower upper blocks by (simp_all add: divide_le_eq)
  show ?thesis
    using result mean bounds by blast
qed

theorem blockwise_cross_entropy_accuracy_bounds_witness:
  "\<exists>loss accuracy.
     blockwise_cross_entropy [[[0, 0], [0, 0]]] [[0, 1]] 1 (Some [[1, 0]]) = Inr (loss, Some accuracy) \<and>
     0 \<le> accuracy \<and> accuracy \<le> 1"
proof -
  have lens: "length [[0, 0], [0, 0 :: real]] = 2 * 1" "length [0, 1 :: int] = 2 * 1"
    "length [1, 0 :: real] = 2 * 1"
    by simp_all
  have vocab: "\<forall>row \<in> set [[0, 0], [0, 0 :: real]]. row \<noteq> []"
    by simp
  have binary: "\<forall>x \<in> set [1, 0 :: real]. x = 0 \<or> x = 1"
    by simp
  show ?thesis
    using blockwise_cross_entropy_accuracy_bounds [of 1 2 "[[0, 0], [0, 0]]" "[[[0, 0], [0, 0]]]"
        "[0, 1]" "[[0, 1]]" "[1, 0]" "Some [[1, 0]]", OF _ _ _ _ _ lens vocab binary]
    by simp
qed

section \<open>Rounding, overflow and NaN in the IEEE arithmetic\<close>

lemma floor_log2_powi:
  assumes "2 powi e \<le> x" and "x < 2 powi (e + 1)"
  shows "\<lfloor>log 2 x\<rfloor> = e"
proof -
  have "0 < (2 :: real) powi e"
    by simp
  then have pos: "0 < x"
    using assms(1) by linarith
  have "2 powr real_of_int e \<le> x" "x < 2 powr (real_of_int e + 1)"
    using assms powr_real_of_int' [of 2 e] powr_real_of_int' [of 2 "e + 1"]
    by (simp_all add: add.commute)
  then show ?thesis
    using floor_log_eq_powr_iff [of x 2 e] pos by simp
qed

lemma round_half_even_of_int: "round_half_even (of_int n) = n"
  by (simp add: round_half_even_def)

text \<open>A number of the format is rounded to itself.\<close>

lemma round_to_representable:
  assumes x: "x = of_int m * 2 powi k"
    and m: "\<bar>m\<bar> < 2 ^ significand_bits d"
    and k: "1 - emax d - int (significand_bits d) + 1 \<le> k"
    and range: "\<bar>x\<bar> \<le> - finfo_min d"
  shows "round_to d x = Fin x"
proof (cases "x = 0")
  case True
  then show ?thesis by (simp add: round_to_def)
next
  case False
  define p where "p = int (significand_bits d)"
  define e where "e = float_exponent d x"
  have abs_x: "\<bar>x\<bar> = of_int \<bar>m\<bar> * 2 powi k"
    by (simp add: x abs_mult)
  have "of_int \<bar>m\<bar> < (2 :: real) ^ significand_bits d"
    using m by (metis of_int_less_iff of_int_numeral of_int_power)
  then have "\<bar>x\<bar> < 2 ^ significand_bits d * 2 powi k"
    unfolding abs_x by (intro mult_strict_right_mono) simp_all
  also have "\<dots> = 2 powi (p + k)"
    by (simp add: power_int_add p_def)
  finally have below: "\<bar>x\<bar> < 2 powi (p + k)" .
  have "log 2 \<bar>x\<bar> < real_of_int (p + k)"
    using below False powr_real_of_int' [of 2 "p + k"]
    by (subst log_less_iff) simp_all
  then have "\<lfloor>log 2 \<bar>x\<bar>\<rfloor> < p + k"
    by (simp add: floor_less_iff)
  then have ulp: "e - p + 1 \<le> k"
    using k by (simp add: e_def float_exponent_def p_def)
  define j where "j = nat (k - (e - p + 1))"
  have j: "k = (e - p + 1) + int j"
    using ulp by (simp add: j_def)
  have divided: "x / 2 powi (e - p + 1) = of_int (m * 2 ^ j)"
    by (simp add: x j power_int_add)
  have restored: "of_int (m * 2 ^ j) * 2 powi (e - p + 1) = x"
    by (simp add: x j power_int_add)
  show ?thesis
    using False range
    by (simp add: round_to_def Let_def e_def [symmetric] p_def [symmetric] divided
        round_half_even_of_int restored del: of_int_mult of_int_power)
qed

lemma finfo_min_below: "finfo_min d \<le> - 4"
  by (cases d) simp_all

lemma round_to_small:
  "round_to d 1 = Fin 1" "round_to d 2 = Fin 2" "round_to d 4 = Fin 4"
  "round_to d (1 / 2) = Fin (1 / 2)" "round_to d (1 / 4) = Fin (1 / 4)"
proof -
  have bits: "\<bar>1 :: int\<bar> < 2 ^ significand_bits d"
    by (cases d) simp_all
  have least: "1 - emax d - int (significand_bits d) + 1 \<le> - 2"
    by (cases d) simp_all
  note fits = round_to_representable [where m = 1 and d = d, OF _ bits]
  show "round_to d 1 = Fin 1"
    using fits [of 1 0] least finfo_min_below [of d] by simp
  show "round_to d 2 = Fin 2"
    using fits [of 2 1] least finfo_min_below [of d] by simp
  show "round_to d 4 = Fin 4"
    using fits [of 4 2] least finfo_min_below [of d] by simp
  show "round_to d (1 / 2) = Fin (1 / 2)"
    using fits [of "1 / 2" "- 1"] least finfo_min_below [of d] by (simp add: power_int_minus)
  show "round_to d (1 / 4) = Fin (1 / 4)"
    using fits [of "1 / 4" "- 2"] least finfo_min_below [of d] by (simp add: power_int_minus)
qed

text \<open>
  The IEEE arithmetic of every format has the basic facts, so what they imply holds in it:
  with chunk sizes 2 the outputs at the positions 0, 1 and 3 of the first example are 1/4,
  and the output at position 1 of the causal example moves from 0 to 1/2.
\<close>

lemma arith_basic_ieee: "arith_basic (ieee_arith d)"
  unfolding arith_basic_def ieee_arith_def
  by (simp add: ieee_add_def ieee_mul_def ieee_div_def ieee_exp_def ieee_sqrt_def round_to_small)
     (simp add: round_to_def)

lemma blockwise_attn_chunked_example_ieee:
  "\<exists>x. blockwise_attn (ieee_arith d) [[[[Fin 0]], [[Fin 1]], [[Fin 0]], [[Fin 0]]]]
         [[[[Fin 1]], [[Fin 0]], [[Fin 0]], [[Fin 0]]]] [[[[Fin 1]], [[Fin 0]], [[Fin 0]], [[Fin 0]]]]
         (Some [[[[Fin 0]]]]) True dropout_rng 0 False 2 2 Float32 False
       = Inr [[[[Fin (1 / 4)]], [[Fin (1 / 4)]], [[x]], [[Fin (1 / 4)]]]]"
  by (rule blockwise_attn_chunked_example [OF arith_basic_ieee])

lemma blockwise_attn_causal_example_ieee:
  "\<exists>x0 x2. blockwise_attn (ieee_arith d) [[[[Fin 0]], [[Fin 0]], [[Fin 0]], [[Fin 0]]]]
         [[[[Fin 0]], [[Fin 0]], [[Fin 0]], [[Fin 0]]]] [[[[Fin 0]], [[Fin 0]], [[Fin 0]], [[Fin 0]]]]
         (Some [[[[Fin 0]]]]) True dropout_rng 0 True 2 2 Float32 False
       = Inr [[[[x0]], [[Fin 0]], [[x2]], [[Fin 0]]]]"
  "\<exists>x0 x2. blockwise_attn (ieee_arith d) [[[[Fin 0]], [[Fin 0]], [[Fin 0]], [[Fin 0]]]]
         [[[[Fin 0]], [[Fin 0]], [[Fin 0]], [[Fin 0]]]] [[[[Fin 0]], [[Fin 0]], [[Fin 1]], [[Fin 0]]]]
         (Some [[[[Fin 0]]]]) True dropout_rng 0 True 2 2 Float32 False
       = Inr [[[[x0]], [[Fin (1 / 2)]], [[x2]], [[Fin (1 / 4)]]]]"
  by (rule blockwise_attn_causal_example [OF arith_basic_ieee])+

text \<open>
  In single precision a bias of 1 is absorbed where the causal mask adds the most negative
  finite value: the sum is rounded to that value.
\<close>

lemma round_to_absorbs: "round_to Float32 (1 + finfo_min Float32) = Fin (finfo_min Float32)"
proof -
  have "\<lfloor>log 2 \<bar>1 + finfo_min Float32\<bar>\<rfloor> = 127"
    by (rule floor_log2_powi) simp_all
  then have e: "float_exponent Float32 (1 + finfo_min Float32) = 127"
    by (simp add: float_exponent_def)
  have q: "\<lfloor>(1 + finfo_min Float32) / 2 powi 104\<rfloor> = - (2 ^ 24 - 1)"
    by (subst floor_eq_iff) simp
  show ?thesis
    unfolding round_to_def Let_def e round_half_even_def
    by (simp add: q) 
qed

lemma bias_absorbed_by_rounding:
  "chunk_attention_bias (ieee_arith Float32) 1 2 (Some [[[[Fin 1, Fin 1]]]]) True None 0 True
     Float32 0 0 = Inr [[[[Fin 1, Fin (finfo_min Float32)]]]]"
  using round_to_absorbs finfo_min_neg [of Float32]
  by (simp add: chunk_attention_bias_def dynamic_slice_tile_def dynamic_slice1_def
      dim2_def dim3_def dim1_def broadcast4_def broadcast2_evals causal_mask_value_def upt_evals
      ieee_arith_def ieee_add_def del: finfo_min.simps)

text \<open>
  In half precision the sum of the most negative finite value with itself overflows: a
  position that the causal mask and the dropout mask both mark holds \<^verbatim>\<open>-inf\<close>.
\<close>

lemma round_to_overflows: "round_to Float16 (finfo_min Float16 + finfo_min Float16) = NegInf"
proof -
  have "\<lfloor>log 2 \<bar>finfo_min Float16 + finfo_min Float16\<bar>\<rfloor> = 16"
    by (rule floor_log2_powi) simp_all
  then have e: "float_exponent Float16 (finfo_min Float16 + finfo_min Float16) = 16"
    by (simp add: float_exponent_def)
  have q: "(finfo_min Float16 + finfo_min Float16) /
             2 powi (16 - int (significand_bits Float16) + 1) = of_int (- 2047)"
    by simp
  show ?thesis
    unfolding round_to_def Let_def e q round_half_even_of_int by simp
qed

lemma masked_and_dropped_overflows:
  "chunk_attention_bias (ieee_arith Float16) 2 2 None False
     (Some [[[[True, True], [True, True]]]]) (1 / 2) True Float16 0 0
   = Inr [[[[Fin (- 65504), NegInf], [Fin (- 65504), Fin (- 65504)]]]]"
  using round_to_overflows
  by (simp add: chunk_attention_bias_def dynamic_slice_tile_def dynamic_slice1_def
      dim2_def dim3_def dim1_def broadcast4_def broadcast2_evals causal_mask_value_def upt_evals
      ieee_arith_def ieee_add_def)

text \<open>
  A row of scores that a bias of \<^verbatim>\<open>-inf\<close> masks entirely: the maximum is \<^verbatim>\<open>-inf\<close>,
  the weights \<^verbatim>\<open>exp (-inf - (-inf))\<close> are NaN, and so are the numerator, the denominator
  and the output.
\<close>

lemma masked_row_gives_nan:
  "skip_upper_half False (ieee_arith Float32) (\<lambda>_ _. Inr [[[[NegInf]]]]) [[[[Fin 1]]]] 0
     (init_carry 1 1 1 1) ([[[[Fin 1]]]], [[[[Fin 5]]]], 0)
   = Inr (\<lparr> numerator = [[[[NaN]]]], denominator = [[[[NaN]]]], max_so_far = [[[[NegInf]]]] \<rparr>, ())"
  "query_chunk_attention False (ieee_arith Float32) (\<lambda>_ _. Inr [[[[NegInf]]]]) 1 1 1 1
     [[[[[Fin 1]]]]] [[[[[Fin 5]]]]] ([[[[Fin 1]]]], 0) = Inr [[[[NaN]]]]"
  by (simp_all add: query_chunk_attention_def skip_upper_half_def skip_block_def
      summarize_chunk_def attn_scores_def einsum_bqhd_bkhd_def einsum_bqhv_bvhf_def
      moveaxis_1_2_def max_keepdims_def sum_keepdims_def broadcast4_def broadcast2_evals
      init_carry_def tab4_def dim1_def dim2_def upt_evals Let_def
      ieee_arith_def ieee_add_def ieee_mul_def ieee_div_def ieee_exp_def)

end
